theory Spec2Isabelle
  imports Main "HOL-Library.Sublist"
begin

section \<open>Strings\<close>

text \<open>
  A Python \<open>str\<close> is modelled as a \<open>string\<close>; a \<open>char\<close> stands for the code point
  of the same number, so the model covers the code points U+0000 to U+00FF. The
  character classes below are the ones of CPython on that range.
\<close>

text \<open>\<open>str.isnumeric\<close> on one character: the ten digits, the superscripts
  two, three and one, and the three vulgar fractions of Latin-1.\<close>

definition isnumeric :: "char \<Rightarrow> bool" where
  "isnumeric c =
     (c \<in> set ''0123456789'' \<or>
      c \<in> set [CHR 0xB2, CHR 0xB3, CHR 0xB9, CHR 0xBC, CHR 0xBD, CHR 0xBE])"

text \<open>\<open>str.isspace\<close> on one character; the class \<open>\s\<close> of \<open>re\<close> on a \<open>str\<close>
  pattern is the same set.\<close>

definition isspace :: "char \<Rightarrow> bool" where
  "isspace c =
     (c \<in> set [CHR 0x09, CHR 0x0A, CHR 0x0B, CHR 0x0C, CHR 0x0D,
                CHR 0x1C, CHR 0x1D, CHR 0x1E, CHR 0x1F, CHR 0x20, CHR 0x85, CHR 0xA0])"

text \<open>The character class \<open>[\s\xa0]\<close> of the regular expression in the parser.\<close>

definition ws_class :: "char \<Rightarrow> bool" where
  "ws_class c = (isspace c \<or> c = CHR 0xA0)"

text \<open>\<open>str.strip()\<close>: leading and trailing whitespace removed.\<close>

definition strip :: "string \<Rightarrow> string" where
  "strip s = rev (dropWhile isspace (rev (dropWhile isspace s)))"

text \<open>\<open>sep.join(xs)\<close>.\<close>

fun join :: "string \<Rightarrow> string list \<Rightarrow> string" where
  "join sep [] = []"
| "join sep [x] = x"
| "join sep (x # y # ys) = x @ sep @ join sep (y # ys)"

text \<open>\<open>sub in text\<close> on strings.\<close>

fun str_contains :: "string \<Rightarrow> string \<Rightarrow> bool" where
  "str_contains sub [] = (sub = [])"
| "str_contains sub (c # cs) = (prefix sub (c # cs) \<or> str_contains sub cs)"

text \<open>\<open>text.startswith(p)\<close>.\<close>

definition startswith :: "string \<Rightarrow> string \<Rightarrow> bool" where
  "startswith p text = prefix p text"

text \<open>\<open>re.sub(r'[\s\xa0]+', ' ', text)\<close>: scanning from the left, every maximal run of
  characters of the class is replaced by one space.\<close>

function re_sub :: "string \<Rightarrow> string" where
  "re_sub [] = []"
| "re_sub (c # cs) =
     (if ws_class c then CHR 0x20 # re_sub (dropWhile ws_class cs) else c # re_sub cs)"
  by pat_completeness auto
termination
  by (relation "measure length") (auto simp: length_dropWhile_le less_Suc_eq_le)

section \<open>The parsed document\<close>

text \<open>
  The tree that \<open>BeautifulSoup(response.text, 'html.parser')\<close> returns: text nodes and
  tags. Of a tag's attributes the scraper reads \<open>id\<close>, \<open>class\<close> (which the parser
  keeps as the list of its whitespace-separated values) and \<open>href\<close>.
\<close>

datatype node =
    NavigableString string
  | Tag (tag_name: string) (tag_id: "string option") (tag_class: "string list")
        (tag_href: "string option") (tag_contents: "node list")

text \<open>\<open>tag.descendants\<close>: the nodes below a tag, in document order.\<close>

fun descendants :: "node \<Rightarrow> node list" where
  "descendants (NavigableString s) = []"
| "descendants (Tag n i c h ns) = concat (map (\<lambda>x. x # descendants x) ns)"

text \<open>The filter of \<open>find\<close> and \<open>find_all\<close>: a tag name, and optionally a value of
  \<open>id\<close> or one of the values of \<open>class\<close>.\<close>

fun matches :: "string \<Rightarrow> string option \<Rightarrow> string option \<Rightarrow> node \<Rightarrow> bool" where
  "matches nm i c (NavigableString s) = False"
| "matches nm i c (Tag n ti tc h ns) =
     (n = nm \<and> (case i of None \<Rightarrow> True | Some v \<Rightarrow> ti = Some v)
            \<and> (case c of None \<Rightarrow> True | Some v \<Rightarrow> v \<in> set tc))"

definition find_all :: "string \<Rightarrow> string option \<Rightarrow> string option \<Rightarrow> node \<Rightarrow> node list" where
  "find_all nm i c t = filter (matches nm i c) (descendants t)"

definition find_tag :: "string \<Rightarrow> string option \<Rightarrow> string option \<Rightarrow> node \<Rightarrow> node option" where
  "find_tag nm i c t = (case find_all nm i c t of [] \<Rightarrow> None | x # xs \<Rightarrow> Some x)"

text \<open>\<open>get_text(strip=...)\<close>: the strings below the node, each stripped and the empty
  ones dropped when \<open>strip\<close> is set, concatenated.\<close>

fun node_string :: "node \<Rightarrow> string list" where
  "node_string (NavigableString s) = [s]"
| "node_string (Tag n i c h ns) = []"

definition all_strings :: "bool \<Rightarrow> node \<Rightarrow> string list" where
  "all_strings strp t =
     (let ss = (case t of NavigableString s \<Rightarrow> [s]
                | Tag n i c h ns \<Rightarrow> concat (map node_string (descendants t)))
      in if strp then filter (\<lambda>s. s \<noteq> []) (map strip ss) else ss)"

definition get_text :: "bool \<Rightarrow> node \<Rightarrow> string" where
  "get_text strp t = concat (all_strings strp t)"

text \<open>\<open>tag.get('href')\<close>.\<close>

fun get_href :: "node \<Rightarrow> string option" where
  "get_href (NavigableString s) = None"
| "get_href (Tag n i c h ns) = h"

section \<open>Exceptions\<close>

text \<open>
  The exceptions that the scraper's own statements can raise: a failed request
  (\<open>requests.get\<close>), a bad status (\<open>raise_for_status\<close>; \<open>HTTPError\<close> is a subclass of
  \<open>RequestException\<close>), a method called on the \<open>None\<close> that \<open>find\<close> or \<open>get\<close>
  returned, and an error of the database driver (\<open>pyodbc.Error\<close>) from
  \<open>executemany\<close> or \<open>commit\<close>.
\<close>

datatype exn = RequestException | HTTPError | AttributeError | DatabaseError

fun is_RequestException :: "exn \<Rightarrow> bool" where
  "is_RequestException RequestException = True"
| "is_RequestException HTTPError = True"
| "is_RequestException AttributeError = False"
| "is_RequestException DatabaseError = False"

fun is_HTTPError :: "exn \<Rightarrow> bool" where
  "is_HTTPError HTTPError = True"
| "is_HTTPError RequestException = False"
| "is_HTTPError AttributeError = False"
| "is_HTTPError DatabaseError = False"

fun is_Exception :: "exn \<Rightarrow> bool" where
  "is_Exception e = True"

text \<open>A method call on the result of \<open>find\<close>.\<close>

fun deref :: "'a option \<Rightarrow> exn + 'a" where
  "deref None = Inl AttributeError"
| "deref (Some t) = Inr t"

text \<open>Sequencing of statements that may raise, and \<open>try: ... except: v\<close>.\<close>

fun seq :: "exn + 'a \<Rightarrow> ('a \<Rightarrow> exn + 'b) \<Rightarrow> exn + 'b" where
  "seq (Inl e) f = Inl e"
| "seq (Inr x) f = f x"

fun bare_except :: "exn + 'a \<Rightarrow> 'a \<Rightarrow> 'a" where
  "bare_except (Inl e) v = v"
| "bare_except (Inr x) v = x"

section \<open>The course parser\<close>

type_synonym course_info = "string \<times> string \<times> string \<times> string \<times> string"

text \<open>The loop over \<open>credit_text\<close>, with \<open>credit_nums\<close> as its accumulator.\<close>

fun credit_loop :: "string \<Rightarrow> string list \<Rightarrow> string list" where
  "credit_loop [] credit_nums = credit_nums"
| "credit_loop (char # rest) credit_nums =
     (if \<not> isnumeric char then credit_nums else credit_loop rest (credit_nums @ [[char]]))"

definition credit_hours_of :: "string \<Rightarrow> string" where
  "credit_hours_of credit_text = join [] (credit_loop credit_text [])"

definition description_try :: "node \<Rightarrow> exn + string" where
  "description_try course =
     seq (deref (find_tag ''div'' None (Some ''courseblockdesc'') course)) (\<lambda>d.
     seq (deref (find_tag ''p'' None None d)) (\<lambda>p.
     Inr (get_text True p)))"

definition description_of :: "node \<Rightarrow> string" where
  "description_of course = bare_except (description_try course) ''N/A''"

text \<open>The loop over \<open>attributes_paragraphs\<close>, with the list of cleaned texts as its
  accumulator.\<close>

fun attributes_loop :: "node list \<Rightarrow> string list \<Rightarrow> string list" where
  "attributes_loop [] attributes_list = attributes_list"
| "attributes_loop (attribute # rest) attributes_list =
     (let text = get_text False attribute in
      if \<not> str_contains ''Objective'' text
      then attributes_loop rest (attributes_list @ [strip (re_sub text)])
      else attributes_loop rest attributes_list)"

definition attributes_try :: "node \<Rightarrow> exn + string" where
  "attributes_try course =
     seq (deref (find_tag ''div'' None (Some ''courseblockextra'') course)) (\<lambda>extra.
     Inr (join '', '' (attributes_loop (find_all ''p'' None None extra) []) @ '' ''))"

definition attributes_of :: "node \<Rightarrow> string" where
  "attributes_of course = bare_except (attributes_try course) ''N/A''"

definition extract_course_info :: "node \<Rightarrow> exn + course_info" where
  "extract_course_info course =
     seq (deref (find_tag ''div'' None (Some ''courseblocktitle_bubble'') course)) (\<lambda>details_div.
     seq (deref (find_tag ''div'' None (Some ''course_code'') details_div)) (\<lambda>code_div.
     let code = join '' '' (map (get_text False) (find_all ''span'' None None code_div)) in
     seq (deref (find_tag ''div'' None (Some ''course_codetitle'') details_div)) (\<lambda>title_div.
     let name = get_text True title_div in
     seq (deref (find_tag ''div'' None (Some ''course_credits'') details_div)) (\<lambda>credits_div.
     let credit_text = get_text True credits_div;
         credit_hours = credit_hours_of credit_text;
         description = description_of course;
         attributes = attributes_of course
     in Inr (code, name, credit_hours, description, attributes)))))"

section \<open>The network, the database and the log\<close>

text \<open>
  What surrounds a run: what a GET of a URL gives (the request fails, the status is an
  error, or a page, already parsed); \<open>urllib.parse.urljoin\<close>, whose second argument is
  the value of \<open>get('href')\<close> and may be \<open>None\<close>; and the database, of which
  \<open>db_fails n\<close> says whether call number \<open>n\<close> of the run (an \<open>executemany\<close> or a
  \<open>commit\<close>, counted from 0 after the codes have been read) raises. The pause after
  each request has no effect on the values computed and is left out.
\<close>

datatype response = RequestFailed | StatusError | Page node

record world =
  http_get :: "string \<Rightarrow> response"
  urljoin :: "string \<Rightarrow> string option \<Rightarrow> string"
  db_fails :: "nat \<Rightarrow> bool"

text \<open>\<open>requests.get(url)\<close>, \<open>raise_for_status()\<close> and the parse of the body: the
  three statements that open each fetcher.\<close>

definition get_soup :: "world \<Rightarrow> string \<Rightarrow> exn + node" where
  "get_soup w url =
     (case http_get w url of
        RequestFailed \<Rightarrow> Inl RequestException
      | StatusError \<Rightarrow> Inl HTTPError
      | Page soup \<Rightarrow> Inr soup)"

datatype level = INFO | WARNING | ERROR

datatype message =
    Fetched_category_links nat
  | No_category_links_found
  | Error_fetching_category_links exn
  | Fetched_subject_links nat string
  | HTTP_error_fetching_subject_links string exn
  | Error_fetching_subject_links string exn
  | No_courses_found string
  | Prepared_entry string string
  | Course_already_in_database string string
  | Inserted_courses nat string
  | Error_processing_course string exn
  | Request_error_while_processing string exn
  | Error_processing_row string exn
  | Inserted_remaining nat string
  | Total_courses_added nat

type_synonym log = "(level \<times> message) list"

section \<open>The link extractors\<close>

definition BASE_URL :: string where
  "BASE_URL = ''https://bulletins.psu.edu/university-course-descriptions/''"

text \<open>The list comprehension of \<open>fetch_category_links\<close>: one link for each list item
  that has an anchor.\<close>

fun category_links_of :: "world \<Rightarrow> string \<Rightarrow> node list \<Rightarrow> string list" where
  "category_links_of w base_url [] = []"
| "category_links_of w base_url (link # rest) =
     (case find_tag ''a'' None None link of
        None \<Rightarrow> category_links_of w base_url rest
      | Some a \<Rightarrow> urljoin w base_url (get_href a) # category_links_of w base_url rest)"

definition fetch_category_links :: "world \<Rightarrow> string \<Rightarrow> log \<times> (exn + string list)" where
  "fetch_category_links w base_url =
     (case get_soup w base_url of
        Inr soup \<Rightarrow>
          (case find_tag ''ul'' (Some ''/university-course-descriptions/'') None soup of
             Some links \<Rightarrow>
               (let category_links = category_links_of w base_url (find_all ''li'' None None links)
                in ([(INFO, Fetched_category_links (length category_links))], Inr category_links))
           | None \<Rightarrow> ([(WARNING, No_category_links_found)], Inr []))
      | Inl e \<Rightarrow>
          (if is_RequestException e
           then ([(ERROR, Error_fetching_category_links e)], Inr [])
           else ([], Inl e)))"

text \<open>The list comprehension of \<open>fetch_subject_links\<close>. Its condition calls
  \<open>startswith\<close> on the value of \<open>get('href')\<close>, which raises on \<open>None\<close>.\<close>

fun subject_links_of :: "world \<Rightarrow> string \<Rightarrow> node list \<Rightarrow> exn + string list" where
  "subject_links_of w category [] = Inr []"
| "subject_links_of w category (li # rest) =
     (case find_tag ''a'' None None li of
        None \<Rightarrow> subject_links_of w category rest
      | Some a \<Rightarrow>
          seq (deref (get_href a)) (\<lambda>h.
          seq (subject_links_of w category rest) (\<lambda>links.
          Inr (if \<not> startswith ''#'' h then urljoin w category (Some h) # links else links))))"

definition subject_links_try :: "world \<Rightarrow> string \<Rightarrow> exn + string list" where
  "subject_links_try w category =
     seq (get_soup w category) (\<lambda>soup.
     seq (deref (find_tag ''div'' None (Some ''az_sitemap'') soup)) (\<lambda>sitemap.
     let ul_elements = find_all ''ul'' None None sitemap in
     subject_links_of w category (concat (map (find_all ''li'' None None) ul_elements))))"

definition fetch_subject_links :: "world \<Rightarrow> string \<Rightarrow> log \<times> (exn + string list)" where
  "fetch_subject_links w category =
     (case subject_links_try w category of
        Inr subject_links \<Rightarrow>
          ([(INFO, Fetched_subject_links (length subject_links) category)], Inr subject_links)
      | Inl e \<Rightarrow>
          (if is_HTTPError e
           then ([(ERROR, HTTP_error_fetching_subject_links category e)], Inr [])
           else if is_Exception e
           then ([(ERROR, Error_fetching_subject_links category e)], Inr [])
           else ([], Inl e)))"

definition fetch_courses :: "world \<Rightarrow> string \<Rightarrow> exn + node list" where
  "fetch_courses w subject =
     seq (get_soup w subject) (\<lambda>soup.
     seq (deref (find_tag ''div'' None (Some ''sc_sccoursedescs'') soup)) (\<lambda>descs.
     Inr (find_all ''div'' None (Some ''courseblock'') descs)))"

section \<open>The orchestrator\<close>

text \<open>
  The variables of \<open>main\<close> that its loops update; the database as the run sees it (the
  lists of rows that \<open>executemany\<close> has taken, in order, how many of them a \<open>commit\<close>
  has made durable, and the number of calls made so far); and the log.
\<close>

record state =
  batch :: "course_info list"
  counter :: nat
  existing_codes :: "string set"
  inserted :: "course_info list list"
  committed :: nat
  db_calls :: nat
  logged :: log

definition BATCH_SIZE :: nat where
  "BATCH_SIZE = 100"

definition logging :: "level \<Rightarrow> message \<Rightarrow> state \<Rightarrow> state" where
  "logging l m s = s\<lparr>logged := logged s @ [(l, m)]\<rparr>"

text \<open>\<open>insert_courses(c, batch)\<close> and \<open>conn.commit()\<close>: each is one call to the
  database, which raises or takes effect.\<close>

definition insert_courses :: "world \<Rightarrow> state \<Rightarrow> exn option \<times> state" where
  "insert_courses w s =
     (if db_fails w (db_calls s)
      then (Some DatabaseError, s\<lparr>db_calls := Suc (db_calls s)\<rparr>)
      else (None, s\<lparr>db_calls := Suc (db_calls s), inserted := inserted s @ [batch s]\<rparr>))"

definition commit :: "world \<Rightarrow> state \<Rightarrow> exn option \<times> state" where
  "commit w s =
     (if db_fails w (db_calls s)
      then (Some DatabaseError, s\<lparr>db_calls := Suc (db_calls s)\<rparr>)
      else (None, s\<lparr>db_calls := Suc (db_calls s), committed := length (inserted s)\<rparr>))"

text \<open>The test \<open>code not in existing_codes\<close> and its two branches.\<close>

definition stage :: "course_info \<Rightarrow> state \<Rightarrow> state" where
  "stage info s =
     (case info of (code, name, credits, description, attributes) \<Rightarrow>
        if code \<notin> existing_codes s
        then logging INFO (Prepared_entry code name)
               (s\<lparr>batch := batch s @ [info],
                  counter := counter s + 1,
                  existing_codes := insert code (existing_codes s)\<rparr>)
        else logging INFO (Course_already_in_database code name) s)"

text \<open>The test \<open>len(batch) >= BATCH_SIZE\<close> and its branch: insert, commit, log, clear.
  An exception of the insert or of the commit leaves the branch before the batch is
  cleared.\<close>

definition flush_if_full :: "world \<Rightarrow> state \<Rightarrow> exn option \<times> state" where
  "flush_if_full w s =
     (if length (batch s) \<ge> BATCH_SIZE
      then (case insert_courses w s of
              (Some e, s1) \<Rightarrow> (Some e, s1)
            | (None, s1) \<Rightarrow>
                (case commit w s1 of
                   (Some e, s2) \<Rightarrow> (Some e, s2)
                 | (None, s2) \<Rightarrow>
                     (None, (logging INFO
                               (Inserted_courses (length (batch s2)) (fst (last (batch s2)))) s2)
                            \<lparr>batch := []\<rparr>)))
      else (None, s))"

text \<open>The loop over the course blocks of one subject. An exception, of the parser or
  of the database, leaves the loop with the state as it is at that point.\<close>

fun course_loop :: "world \<Rightarrow> node list \<Rightarrow> state \<Rightarrow> exn option \<times> state" where
  "course_loop w [] s = (None, s)"
| "course_loop w (course # rest) s =
     (case extract_course_info course of
        Inl e \<Rightarrow> (Some e, s)
      | Inr info \<Rightarrow>
          (case flush_if_full w (stage info s) of
             (Some e, s') \<Rightarrow> (Some e, s')
           | (None, s') \<Rightarrow> course_loop w rest s'))"

text \<open>The body of the \<open>try\<close> of one subject, and the \<open>try\<close> with its handler.\<close>

definition subject_body :: "world \<Rightarrow> string \<Rightarrow> state \<Rightarrow> exn option \<times> state" where
  "subject_body w subject s =
     (case fetch_courses w subject of
        Inl e \<Rightarrow> (Some e, s)
      | Inr courses \<Rightarrow>
          if courses = [] then (None, logging WARNING (No_courses_found subject) s)
          else course_loop w courses s)"

definition subject_try :: "world \<Rightarrow> string \<Rightarrow> state \<Rightarrow> exn option \<times> state" where
  "subject_try w subject s =
     (case subject_body w subject s of
        (None, s') \<Rightarrow> (None, s')
      | (Some e, s') \<Rightarrow>
          if is_Exception e then (None, logging ERROR (Error_processing_course subject e) s')
          else (Some e, s'))"

fun subject_loop :: "world \<Rightarrow> string list \<Rightarrow> state \<Rightarrow> exn option \<times> state" where
  "subject_loop w [] s = (None, s)"
| "subject_loop w (subject # rest) s =
     (case subject_try w subject s of
        (None, s') \<Rightarrow> subject_loop w rest s'
      | (Some e, s') \<Rightarrow> (Some e, s'))"

text \<open>The body of the \<open>try\<close> of one category, and the \<open>try\<close> with its two handlers.\<close>

definition category_body :: "world \<Rightarrow> string \<Rightarrow> state \<Rightarrow> exn option \<times> state" where
  "category_body w category s =
     (case fetch_subject_links w category of
        (l, Inl e) \<Rightarrow> (Some e, s\<lparr>logged := logged s @ l\<rparr>)
      | (l, Inr subjects) \<Rightarrow> subject_loop w subjects (s\<lparr>logged := logged s @ l\<rparr>))"

definition category_try :: "world \<Rightarrow> string \<Rightarrow> state \<Rightarrow> exn option \<times> state" where
  "category_try w category s =
     (case category_body w category s of
        (None, s') \<Rightarrow> (None, s')
      | (Some e, s') \<Rightarrow>
          if is_RequestException e
          then (None, logging ERROR (Request_error_while_processing category e) s')
          else if is_Exception e
          then (None, logging ERROR (Error_processing_row category e) s')
          else (Some e, s'))"

fun category_loop :: "world \<Rightarrow> string list \<Rightarrow> state \<Rightarrow> exn option \<times> state" where
  "category_loop w [] s = (None, s)"
| "category_loop w (category # rest) s =
     (case category_try w category s of
        (None, s') \<Rightarrow> category_loop w rest s'
      | (Some e, s') \<Rightarrow> (Some e, s'))"

text \<open>The statements after the loops, which no \<open>try\<close> encloses: the remaining batch is
  inserted and committed (and not cleared).\<close>

definition flush_remaining :: "world \<Rightarrow> state \<Rightarrow> exn option \<times> state" where
  "flush_remaining w s =
     (if batch s \<noteq> []
      then (case insert_courses w s of
              (Some e, s1) \<Rightarrow> (Some e, s1)
            | (None, s1) \<Rightarrow>
                (case commit w s1 of
                   (Some e, s2) \<Rightarrow> (Some e, s2)
                 | (None, s2) \<Rightarrow>
                     (None, logging INFO
                              (Inserted_remaining (length (batch s2)) (fst (last (batch s2)))) s2)))
      else (None, s))"

text \<open>\<open>main\<close>, from the fetch of the category links on; \<open>rows\<close> are the codes that
  \<open>SELECT Code FROM Classes\<close> returns. The connection and that query are taken to
  succeed: a run in which they fail stages and inserts nothing.\<close>

definition main :: "world \<Rightarrow> string list \<Rightarrow> exn option \<times> state" where
  "main w rows =
     (case fetch_category_links w BASE_URL of
        (l, Inl e) \<Rightarrow>
          (Some e, \<lparr>batch = [], counter = 0, existing_codes = {}, inserted = [],
                    committed = 0, db_calls = 0, logged = l\<rparr>)
      | (l, Inr category_links) \<Rightarrow>
          (case category_loop w category_links
                  \<lparr>batch = [], counter = 0, existing_codes = set rows, inserted = [],
                   committed = 0, db_calls = 0, logged = l\<rparr> of
             (Some e, s) \<Rightarrow> (Some e, s)
           | (None, s) \<Rightarrow>
               (case flush_remaining w s of
                  (Some e, s') \<Rightarrow> (Some e, s')
                | (None, s') \<Rightarrow> (None, logging INFO (Total_courses_added (counter s')) s'))))"

section \<open>What a run traverses and what it leaves\<close>

text \<open>
  The records that the loops of \<open>main\<close> parse when no call to the database raises, in
  order: of one subject page the course blocks up to the first one that fails to parse,
  of one category its subjects, of the run its categories.
\<close>

fun parsed_courses :: "node list \<Rightarrow> course_info list" where
  "parsed_courses [] = []"
| "parsed_courses (course # rest) =
     (case extract_course_info course of
        Inl e \<Rightarrow> []
      | Inr info \<Rightarrow> info # parsed_courses rest)"

definition subject_records :: "world \<Rightarrow> string \<Rightarrow> course_info list" where
  "subject_records w subject =
     (case fetch_courses w subject of Inl e \<Rightarrow> [] | Inr courses \<Rightarrow> parsed_courses courses)"

definition category_records :: "world \<Rightarrow> string \<Rightarrow> course_info list" where
  "category_records w category =
     (case snd (fetch_subject_links w category) of
        Inl e \<Rightarrow> []
      | Inr subjects \<Rightarrow> concat (map (subject_records w) subjects))"

definition traversal_records :: "world \<Rightarrow> course_info list" where
  "traversal_records w =
     (case snd (fetch_category_links w BASE_URL) of
        Inl e \<Rightarrow> []
      | Inr category_links \<Rightarrow> concat (map (category_records w) category_links))"

text \<open>What \<open>flush_if_full\<close> and \<open>flush_remaining\<close> leave when the insert and the commit
  succeed.\<close>

definition flush_if_full_ok :: "state \<Rightarrow> state" where
  "flush_if_full_ok s =
     (if length (batch s) \<ge> BATCH_SIZE
      then (logging INFO (Inserted_courses (length (batch s)) (fst (last (batch s))))
              (s\<lparr>db_calls := Suc (Suc (db_calls s)), inserted := inserted s @ [batch s],
                 committed := Suc (length (inserted s))\<rparr>))\<lparr>batch := []\<rparr>
      else s)"

definition flush_remaining_ok :: "state \<Rightarrow> state" where
  "flush_remaining_ok s =
     (if batch s \<noteq> []
      then logging INFO (Inserted_remaining (length (batch s)) (fst (last (batch s))))
             (s\<lparr>db_calls := Suc (Suc (db_calls s)), inserted := inserted s @ [batch s],
                committed := Suc (length (inserted s))\<rparr>)
      else s)"

text \<open>The two steps that \<open>main\<close> takes for each parsed record, over a list of records,
  when every flush succeeds.\<close>

fun stage_all :: "course_info list \<Rightarrow> state \<Rightarrow> state" where
  "stage_all [] s = s"
| "stage_all (info # rest) s = stage_all rest (flush_if_full_ok (stage info s))"

text \<open>The records of a list that are staged, given the known codes: those whose code
  is neither known nor the code of an earlier record of the list.\<close>

fun staged_records :: "string set \<Rightarrow> course_info list \<Rightarrow> course_info list" where
  "staged_records known [] = []"
| "staged_records known (info # rest) =
     (if fst info \<in> known then staged_records known rest
      else info # staged_records (insert (fst info) known) rest)"

text \<open>What a run leaves apart from its log: all of it, and the part that the program
  and the database hold at the end.\<close>

definition effect ::
  "state \<Rightarrow> course_info list \<times> nat \<times> string set \<times> course_info list list \<times> nat \<times> nat" where
  "effect s = (batch s, counter s, existing_codes s, inserted s, committed s, db_calls s)"

definition outcome :: "state \<Rightarrow> course_info list \<times> nat \<times> string set \<times> course_info list list" where
  "outcome s = (batch s, counter s, existing_codes s, inserted s)"

text \<open>A condition under which no flush of the loop can fail on a list of records: the
  database never raises, or the batch stays below the threshold, because it and the
  records whose code is not yet known are fewer than that.\<close>

definition calm :: "world \<Rightarrow> state \<Rightarrow> course_info list \<Rightarrow> bool" where
  "calm w s infos =
     ((\<forall>n. \<not> db_fails w n)
      \<or> length (batch s) + length (filter (\<lambda>i. fst i \<notin> existing_codes s) infos) < BATCH_SIZE)"

section \<open>The fields of a record as the specification words them\<close>

text \<open>
  Runs of whitespace collapsed to one space: a whitespace character followed by another
  one is dropped, and each one that is left becomes a space.
\<close>

fun collapse_whitespace :: "string \<Rightarrow> string" where
  "collapse_whitespace [] = []"
| "collapse_whitespace [c] = [if ws_class c then CHR 0x20 else c]"
| "collapse_whitespace (a # b # cs) =
     (if ws_class a \<and> ws_class b then collapse_whitespace (b # cs)
      else (if ws_class a then CHR 0x20 else a) # collapse_whitespace (b # cs))"

text \<open>
  The paragraphs whose text does not contain "Objective", each collapsed and trimmed,
  joined with a comma and a space, and one space appended.
\<close>

definition spec_attributes :: "node list \<Rightarrow> string" where
  "spec_attributes paragraphs =
     join '', ''
       (map (\<lambda>p. strip (collapse_whitespace (get_text False p)))
          (filter (\<lambda>p. \<not> sublist ''Objective'' (get_text False p)) paragraphs)) @ '' ''"

text \<open>The text fragments of an element, in document order: the strings that stand
  between its tags.\<close>

fun fragments :: "node \<Rightarrow> string list" where
  "fragments (NavigableString s) = [s]"
| "fragments (Tag n i c h ns) = concat (map fragments ns)"

text \<open>The fragments of an element, each trimmed, the empty ones dropped, written one
  after the other with nothing between them.\<close>

definition trimmed_fragments :: "node \<Rightarrow> string" where
  "trimmed_fragments p = concat (filter (\<lambda>s. s \<noteq> []) (map strip (fragments p)))"

section \<open>Two small sites\<close>

text \<open>
  A course block with the title fields the parser requires, followed by the given
  further blocks; and a site of one category, one subject and three courses, two of
  them with the same code, whose database never raises. Its links are absolute, so that
  joining one to a base gives the link itself.
\<close>

definition course_block :: "string list \<Rightarrow> string \<Rightarrow> string \<Rightarrow> node list \<Rightarrow> node" where
  "course_block spans title credits others =
     Tag ''div'' None [''courseblock''] None
       (Tag ''div'' None [''courseblocktitle_bubble''] None
          [Tag ''div'' None [''course_code''] None
             (map (\<lambda>s. Tag ''span'' None [] None [NavigableString s]) spans),
           Tag ''div'' None [''course_codetitle''] None [NavigableString title],
           Tag ''div'' None [''course_credits''] None [NavigableString credits]]
        # others)"

definition site_base :: node where
  "site_base =
     Tag ''[document]'' None [] None
       [Tag ''ul'' (Some ''/university-course-descriptions/'') [] None
          [Tag ''li'' None [] None
             [Tag ''a'' None [] (Some ''https://site/cat/'') [NavigableString ''Category'']]]]"

definition site_category :: node where
  "site_category =
     Tag ''[document]'' None [] None
       [Tag ''div'' None [''az_sitemap''] None
          [Tag ''ul'' None [] None
             [Tag ''li'' None [] None
                [Tag ''a'' None [] (Some ''#A'') [NavigableString ''A'']],
              Tag ''li'' None [] None
                [Tag ''a'' None [] (Some ''https://site/cat/cs/'') [NavigableString ''CS'']]]]]"

definition site_subject :: node where
  "site_subject =
     Tag ''[document]'' None [] None
       [Tag ''div'' None [''sc_sccoursedescs''] None
          [course_block [''CS'', ''101''] ''Intro'' ''3 Credits'' [],
           course_block [''CS'', ''101''] ''Intro again'' ''3 Credits'' [],
           course_block [''MATH'', ''200''] ''Calculus'' ''1-3 Credits'' []]]"

definition site :: world where
  "site =
     \<lparr>http_get = (\<lambda>url.
        if url = BASE_URL then Page site_base
        else if url = ''https://site/cat/'' then Page site_category
        else if url = ''https://site/cat/cs/'' then Page site_subject
        else StatusError),
      urljoin = (\<lambda>base href. case href of None \<Rightarrow> base | Some h \<Rightarrow> h),
      db_fails = (\<lambda>n. False)\<rparr>"






section \<open>Properties of the string functions\<close>

lemma join_empty_singletons: "join [] (map (\<lambda>c. [c]) xs) = xs"
  by (induction xs rule: induct_list012) auto

lemma credit_loop_takeWhile:
  "credit_loop s acc = acc @ map (\<lambda>c. [c]) (takeWhile isnumeric s)"
  by (induction s arbitrary: acc) auto

lemma str_contains_sublist: "str_contains sub s = sublist sub s"
  by (induction s) (auto simp: sublist_Cons_right)

lemma collapse_whitespace_run:
  "ws_class a \<Longrightarrow> collapse_whitespace (a # cs) = CHR 0x20 # collapse_whitespace (dropWhile ws_class cs)"
  by (induction cs arbitrary: a) auto

lemma collapse_whitespace_other:
  "\<not> ws_class a \<Longrightarrow> collapse_whitespace (a # cs) = a # collapse_whitespace cs"
  by (cases cs) auto

lemma re_sub_collapse_whitespace: "re_sub s = collapse_whitespace s"
  by (induction s rule: re_sub.induct)
     (simp_all add: collapse_whitespace_run collapse_whitespace_other)

lemma get_text_single: "get_text True (Tag n i c h [NavigableString s]) = strip s"
  by (simp add: get_text_def all_strings_def)

section \<open>Properties of the course parser\<close>

text \<open>
  C4. For every credits text, the credit hours that the parser extracts are the
  longest prefix of the text made of numeric characters, and the empty string when the
  first character is not numeric: "3 Credits" gives "3", "1-3 Credits" gives "1" and
  "Credits: 3" gives "".
\<close>

theorem credit_hours_leading_numeric_run:
  "credit_hours_of credit_text = takeWhile isnumeric credit_text
   \<and> credit_hours_of ''3 Credits'' = ''3''
   \<and> credit_hours_of ''1-3 Credits'' = ''1''
   \<and> credit_hours_of ''Credits: 3'' = []"
proof -
  have "credit_hours_of credit_text = takeWhile isnumeric credit_text"
    by (simp add: credit_hours_of_def credit_loop_takeWhile join_empty_singletons)
  moreover have "credit_hours_of ''3 Credits'' = ''3''"
    by (simp add: credit_hours_of_def isnumeric_def)
  moreover have "credit_hours_of ''1-3 Credits'' = ''1''"
    by (simp add: credit_hours_of_def isnumeric_def)
  moreover have "credit_hours_of ''Credits: 3'' = []"
    by (simp add: credit_hours_of_def isnumeric_def)
  ultimately show ?thesis by blast
qed

lemma node_strings_below:
  "concat (map node_string (x # descendants x)) = all_strings False x"
  by (cases x) (simp_all add: all_strings_def)

lemma all_strings_fragments: "all_strings False t = fragments t"
proof (induction t)
  case (NavigableString s)
  show ?case by (simp add: all_strings_def)
next
  case (Tag n i c h ns)
  have "concat (map node_string (concat (map (\<lambda>x. x # descendants x) ns)))
          = concat (map (\<lambda>x. concat (map node_string (x # descendants x))) ns)"
    by (induction ns) simp_all
  also have "\<dots> = concat (map (all_strings False) ns)"
    by (simp only: node_strings_below)
  also have "\<dots> = concat (map fragments ns)"
    using Tag.IH by (simp cong: map_cong)
  finally show ?case by (simp add: all_strings_def)
qed

lemma get_text_trimmed_fragments: "get_text True p = trimmed_fragments p"
proof -
  have "all_strings True p = filter (\<lambda>s. s \<noteq> []) (map strip (all_strings False p))"
    by (cases p) (simp_all add: all_strings_def)
  then show ?thesis
    by (simp add: get_text_def trimmed_fragments_def all_strings_fragments)
qed

lemma trimmed_fragments_single:
  "trimmed_fragments (Tag n i c h [NavigableString s]) = strip s"
  by (simp add: trimmed_fragments_def)

lemma attributes_loop_filter:
  "attributes_loop ps acc =
     acc @ map (\<lambda>p. strip (re_sub (get_text False p)))
             (filter (\<lambda>p. \<not> str_contains ''Objective'' (get_text False p)) ps)"
  by (induction ps arbitrary: acc) (auto simp: Let_def)

lemma attributes_absent:
  "find_tag ''div'' None (Some ''courseblockextra'') course = None \<Longrightarrow>
   attributes_of course = ''N/A''"
  by (simp add: attributes_of_def attributes_try_def)

lemma attributes_present:
  "find_tag ''div'' None (Some ''courseblockextra'') course = Some extra \<Longrightarrow>
   attributes_of course =
     join '', '' (map (\<lambda>p. strip (re_sub (get_text False p)))
        (filter (\<lambda>p. \<not> str_contains ''Objective'' (get_text False p))
           (find_all ''p'' None None extra))) @ '' ''"
  by (simp add: attributes_of_def attributes_try_def attributes_loop_filter)

lemma description_cases:
  "description_of course =
     (case find_tag ''div'' None (Some ''courseblockdesc'') course of
        None \<Rightarrow> ''N/A''
      | Some d \<Rightarrow>
          (case find_tag ''p'' None None d of None \<Rightarrow> ''N/A'' | Some p \<Rightarrow> get_text True p))"
  by (simp add: description_of_def description_try_def split: option.splits)

lemma extract_course_info_fields:
  assumes "extract_course_info course = Inr (code, name, credits, description, attributes)"
  shows "description = description_of course \<and> attributes = attributes_of course"
proof -
  obtain dd where 1: "find_tag ''div'' None (Some ''courseblocktitle_bubble'') course = Some dd"
    using assms by (cases "find_tag ''div'' None (Some ''courseblocktitle_bubble'') course")
      (simp_all add: extract_course_info_def)
  obtain cc where 2: "find_tag ''div'' None (Some ''course_code'') dd = Some cc"
    using assms 1 by (cases "find_tag ''div'' None (Some ''course_code'') dd")
      (simp_all add: extract_course_info_def)
  obtain ct where 3: "find_tag ''div'' None (Some ''course_codetitle'') dd = Some ct"
    using assms 1 2 by (cases "find_tag ''div'' None (Some ''course_codetitle'') dd")
      (simp_all add: extract_course_info_def)
  obtain cr where 4: "find_tag ''div'' None (Some ''course_credits'') dd = Some cr"
    using assms 1 2 3 by (cases "find_tag ''div'' None (Some ''course_credits'') dd")
      (simp_all add: extract_course_info_def)
  show ?thesis using assms 1 2 3 4 by (simp add: extract_course_info_def)
qed

lemma extract_course_info_title_present:
  assumes "find_tag ''div'' None (Some ''courseblocktitle_bubble'') course = Some dd"
    and "find_tag ''div'' None (Some ''course_code'') dd = Some cc"
    and "find_tag ''div'' None (Some ''course_codetitle'') dd = Some ct"
    and "find_tag ''div'' None (Some ''course_credits'') dd = Some cr"
  shows "extract_course_info course =
     Inr (join '' '' (map (get_text False) (find_all ''span'' None None cc)),
          get_text True ct, credit_hours_of (get_text True cr),
          description_of course, attributes_of course)"
  using assms by (simp add: extract_course_info_def)

lemma find_tag_course_block_title:
  "find_tag ''div'' None (Some ''courseblocktitle_bubble'') (course_block spans title credits others)
     = Some (Tag ''div'' None [''courseblocktitle_bubble''] None
          [Tag ''div'' None [''course_code''] None
             (map (\<lambda>s. Tag ''span'' None [] None [NavigableString s]) spans),
           Tag ''div'' None [''course_codetitle''] None [NavigableString title],
           Tag ''div'' None [''course_credits''] None [NavigableString credits]])"
  by (simp add: course_block_def find_tag_def find_all_def)

lemma descendants_spans:
  "concat (map (\<lambda>x. x # descendants x) (map (\<lambda>s. Tag ''span'' None [] None [NavigableString s]) spans))
     = concat (map (\<lambda>s. [Tag ''span'' None [] None [NavigableString s], NavigableString s]) spans)"
  by (induction spans) auto

lemma filter_div_spans:
  "filter (matches ''div'' None c)
     (concat (map (\<lambda>s. [Tag ''span'' None [] None [NavigableString s], NavigableString s]) spans)) = []"
  by (induction spans) auto

lemma filter_span_spans:
  "filter (matches ''span'' None None)
     (concat (map (\<lambda>s. [Tag ''span'' None [] None [NavigableString s], NavigableString s]) spans))
   = map (\<lambda>s. Tag ''span'' None [] None [NavigableString s]) spans"
  by (induction spans) auto

lemma extract_course_block:
  "extract_course_info (course_block spans title credits others) =
     Inr (join '' '' spans, strip title, credit_hours_of (strip credits),
          description_of (course_block spans title credits others),
          attributes_of (course_block spans title credits others))"
proof -
  let ?dd = "Tag ''div'' None [''courseblocktitle_bubble''] None
          [Tag ''div'' None [''course_code''] None
             (map (\<lambda>s. Tag ''span'' None [] None [NavigableString s]) spans),
           Tag ''div'' None [''course_codetitle''] None [NavigableString title],
           Tag ''div'' None [''course_credits''] None [NavigableString credits]]"
  let ?cc = "Tag ''div'' None [''course_code''] None
             (map (\<lambda>s. Tag ''span'' None [] None [NavigableString s]) spans)"
  have 2: "find_tag ''div'' None (Some ''course_code'') ?dd = Some ?cc"
    by (simp add: find_tag_def find_all_def)
  have 3: "find_tag ''div'' None (Some ''course_codetitle'') ?dd
             = Some (Tag ''div'' None [''course_codetitle''] None [NavigableString title])"
    by (simp add: find_tag_def find_all_def descendants_spans filter_div_spans)
  have 4: "find_tag ''div'' None (Some ''course_credits'') ?dd
             = Some (Tag ''div'' None [''course_credits''] None [NavigableString credits])"
    by (simp add: find_tag_def find_all_def descendants_spans filter_div_spans)
  have 5: "map (get_text False) (find_all ''span'' None None ?cc) = spans"
    by (simp add: find_all_def descendants_spans filter_span_spans
          get_text_def all_strings_def comp_def)
  show ?thesis
    using extract_course_info_title_present[OF find_tag_course_block_title 2 3 4]
    by (simp add: 5 get_text_single)
qed

text \<open>
  C5, as amended. For every course element, the attributes are computed from the
  paragraphs of the "extra" block whose text does not contain "Objective": in each,
  every run of whitespace (the non-breaking space included) is collapsed to one space
  and the result is trimmed; the results are joined with ", " and one space is
  appended. When the extra block is absent the value is "N/A". When the block is
  present and holds no paragraph, the value is the appended space alone. The paragraph
  "Prerequisite: X", two non-breaking spaces and "Y" contributes "Prerequisite: X Y".
\<close>

theorem attributes_joined_or_sentinel:
  "(find_tag ''div'' None (Some ''courseblockextra'') course = None
      \<longrightarrow> attributes_of course = ''N/A'')
   \<and> (\<forall>extra. find_tag ''div'' None (Some ''courseblockextra'') course = Some extra
      \<longrightarrow> attributes_of course = spec_attributes (find_all ''p'' None None extra)
        \<and> (find_all ''p'' None None extra = [] \<longrightarrow> attributes_of course = '' ''))
   \<and> (\<forall>info. extract_course_info course = Inr info
      \<longrightarrow> snd (snd (snd (snd info))) = attributes_of course)
   \<and> spec_attributes [Tag ''p'' None [] None
        [NavigableString (''Prerequisite: X'' @ [CHR 0xA0, CHR 0xA0] @ ''Y'')]]
       = ''Prerequisite: X Y ''"
proof -
  have absent: "find_tag ''div'' None (Some ''courseblockextra'') course = None
      \<longrightarrow> attributes_of course = ''N/A''"
    by (simp add: attributes_absent)
  have present: "attributes_of course = spec_attributes (find_all ''p'' None None extra)
        \<and> (find_all ''p'' None None extra = [] \<longrightarrow> attributes_of course = '' '')"
    if "find_tag ''div'' None (Some ''courseblockextra'') course = Some extra" for extra
    using attributes_present[OF that]
    by (simp add: spec_attributes_def str_contains_sublist re_sub_collapse_whitespace)
  have field: "snd (snd (snd (snd info))) = attributes_of course"
    if "extract_course_info course = Inr info" for info
    using that extract_course_info_fields[of course] by (cases info) auto
  have example: "spec_attributes [Tag ''p'' None [] None
        [NavigableString (''Prerequisite: X'' @ [CHR 0xA0, CHR 0xA0] @ ''Y'')]]
       = ''Prerequisite: X Y ''"
    by (simp add: spec_attributes_def get_text_def all_strings_def strip_def
          ws_class_def isspace_def sublist_Cons_right)
  show ?thesis using absent present field example by blast
qed

theorem attributes_joined_or_sentinel_witness:
  "find_tag ''div'' None (Some ''courseblockextra'')
     (course_block [''CS'', ''101''] ''Intro'' ''3 Credits''
        [Tag ''div'' None [''courseblockextra''] None
           [Tag ''p'' None [] None [NavigableString ''Learning Objective: GQ''],
            Tag ''p'' None [] None [NavigableString (''  Prerequisite: X'' @ [CHR 0xA0, CHR 0xA0] @ ''Y '')],
            Tag ''p'' None [] None [NavigableString ''Cross-listed with: MATH 101'']]])
   = Some (Tag ''div'' None [''courseblockextra''] None
           [Tag ''p'' None [] None [NavigableString ''Learning Objective: GQ''],
            Tag ''p'' None [] None [NavigableString (''  Prerequisite: X'' @ [CHR 0xA0, CHR 0xA0] @ ''Y '')],
            Tag ''p'' None [] None [NavigableString ''Cross-listed with: MATH 101'']])
   \<and> attributes_of
     (course_block [''CS'', ''101''] ''Intro'' ''3 Credits''
        [Tag ''div'' None [''courseblockextra''] None
           [Tag ''p'' None [] None [NavigableString ''Learning Objective: GQ''],
            Tag ''p'' None [] None [NavigableString (''  Prerequisite: X'' @ [CHR 0xA0, CHR 0xA0] @ ''Y '')],
            Tag ''p'' None [] None [NavigableString ''Cross-listed with: MATH 101'']]])
     = ''Prerequisite: X Y, Cross-listed with: MATH 101 ''
   \<and> find_tag ''div'' None (Some ''courseblockextra'')
        (course_block [''CS'', ''101''] ''Intro'' ''3 Credits'' []) = None
   \<and> attributes_of (course_block [''CS'', ''101''] ''Intro'' ''3 Credits'' []) = ''N/A''"
proof -
  let ?extra = "Tag ''div'' None [''courseblockextra''] None
           [Tag ''p'' None [] None [NavigableString ''Learning Objective: GQ''],
            Tag ''p'' None [] None [NavigableString (''  Prerequisite: X'' @ [CHR 0xA0, CHR 0xA0] @ ''Y '')],
            Tag ''p'' None [] None [NavigableString ''Cross-listed with: MATH 101'']]"
  let ?c = "course_block [''CS'', ''101''] ''Intro'' ''3 Credits'' [?extra]"
  let ?d = "course_block [''CS'', ''101''] ''Intro'' ''3 Credits'' []"
  have f: "find_tag ''div'' None (Some ''courseblockextra'') ?c = Some ?extra"
    by (simp add: course_block_def find_tag_def find_all_def)
  have g: "find_tag ''div'' None (Some ''courseblockextra'') ?d = None"
    by (simp add: course_block_def find_tag_def find_all_def)
  have v: "spec_attributes (find_all ''p'' None None ?extra)
             = ''Prerequisite: X Y, Cross-listed with: MATH 101 ''"
    by (simp add: spec_attributes_def find_all_def get_text_def all_strings_def strip_def
          ws_class_def isspace_def sublist_Cons_right)
  show ?thesis
    using attributes_joined_or_sentinel[of ?c] attributes_joined_or_sentinel[of ?d] f g v
    by simp
qed

text \<open>
  C5, as the specification states it, fails on an extra block that is present and
  empty: the value is one space, not "N/A".
\<close>

theorem attributes_empty_block_counterexample:
  "find_tag ''div'' None (Some ''courseblockextra'')
     (course_block [''CS'', ''101''] ''Intro'' ''3 Credits''
        [Tag ''div'' None [''courseblockextra''] None []])
     = Some (Tag ''div'' None [''courseblockextra''] None [])
   \<and> tag_contents (Tag ''div'' None [''courseblockextra''] None []) = []
   \<and> attributes_of
        (course_block [''CS'', ''101''] ''Intro'' ''3 Credits''
           [Tag ''div'' None [''courseblockextra''] None []]) = '' ''
   \<and> attributes_of
        (course_block [''CS'', ''101''] ''Intro'' ''3 Credits''
           [Tag ''div'' None [''courseblockextra''] None []]) \<noteq> ''N/A''
   \<and> extract_course_info
        (course_block [''CS'', ''101''] ''Intro'' ''3 Credits''
           [Tag ''div'' None [''courseblockextra''] None []])
      = Inr (''CS 101'', ''Intro'', ''3'', ''N/A'', '' '')"
proof -
  let ?c = "course_block [''CS'', ''101''] ''Intro'' ''3 Credits''
        [Tag ''div'' None [''courseblockextra''] None []]"
  have f: "find_tag ''div'' None (Some ''courseblockextra'') ?c
             = Some (Tag ''div'' None [''courseblockextra''] None [])"
    by (simp add: course_block_def find_tag_def find_all_def)
  have a: "attributes_of ?c = '' ''"
    by (simp add: attributes_of_def attributes_try_def f find_all_def)
  have d: "description_of ?c = ''N/A''"
    by (simp add: description_of_def description_try_def course_block_def
          find_tag_def find_all_def)
  have e: "extract_course_info ?c = Inr (''CS 101'', ''Intro'', ''3'', ''N/A'', '' '')"
    by (simp add: extract_course_block a d strip_def isspace_def credit_hours_of_def
          isnumeric_def)
  show ?thesis using f a e by simp
qed

text \<open>
  C6. For every course element whose extra block is present and whose every paragraph
  contains "Objective", the attributes are the string of one space (the join of the
  empty list, with the space appended) and not the sentinel "N/A".
\<close>

theorem attributes_all_filtered_single_space:
  assumes "find_tag ''div'' None (Some ''courseblockextra'') course = Some extra"
    and "\<forall>p \<in> set (find_all ''p'' None None extra).
           str_contains ''Objective'' (get_text False p)"
  shows "attributes_of course = join '', '' [] @ '' ''
       \<and> attributes_of course = '' ''
       \<and> attributes_of course \<noteq> ''N/A''"
proof -
  have "filter (\<lambda>p. \<not> str_contains ''Objective'' (get_text False p))
          (find_all ''p'' None None extra) = []"
    using assms(2) by (simp add: filter_empty_conv)
  then show ?thesis using attributes_present[OF assms(1)] by simp
qed

theorem attributes_all_filtered_single_space_witness:
  "attributes_of
     (course_block [''CS'', ''101''] ''Intro'' ''3 Credits''
        [Tag ''div'' None [''courseblockextra''] None
           [Tag ''p'' None [] None [NavigableString ''Learning Objective: GQ''],
            Tag ''p'' None [] None
              [Tag ''b'' None [] None [NavigableString ''Objective''],
               NavigableString '' met: Writing'']]]) = '' ''"
proof -
  let ?extra = "Tag ''div'' None [''courseblockextra''] None
           [Tag ''p'' None [] None [NavigableString ''Learning Objective: GQ''],
            Tag ''p'' None [] None
              [Tag ''b'' None [] None [NavigableString ''Objective''],
               NavigableString '' met: Writing'']]"
  let ?c = "course_block [''CS'', ''101''] ''Intro'' ''3 Credits'' [?extra]"
  have f: "find_tag ''div'' None (Some ''courseblockextra'') ?c = Some ?extra"
    by (simp add: course_block_def find_tag_def find_all_def)
  have g: "\<forall>p \<in> set (find_all ''p'' None None ?extra).
           str_contains ''Objective'' (get_text False p)"
    by (simp add: find_all_def get_text_def all_strings_def)
  show ?thesis using attributes_all_filtered_single_space[OF f g] by simp
qed

text \<open>
  C9, as amended. For every course element, the description is made of the text fragments
  of the first paragraph inside the description block when both exist: each fragment is
  trimmed, the empty ones are dropped, and the rest are written one after the other with
  nothing between them (for a paragraph that holds one fragment, that is its trimmed
  text). It is the sentinel "N/A" when the description block or its paragraph is absent.
  The absence never makes the parser fail: whenever the required title elements are
  present the parser returns a record, whose description is as said.
\<close>

theorem description_or_sentinel:
  "description_of course =
     (case find_tag ''div'' None (Some ''courseblockdesc'') course of
        None \<Rightarrow> ''N/A''
      | Some d \<Rightarrow>
          (case find_tag ''p'' None None d of
             None \<Rightarrow> ''N/A''
           | Some p \<Rightarrow> trimmed_fragments p))
   \<and> trimmed_fragments (Tag n i c h [NavigableString s]) = strip s
   \<and> (\<forall>info. extract_course_info course = Inr info
        \<longrightarrow> fst (snd (snd (snd info))) = description_of course)
   \<and> (\<forall>dd cc ct cr.
         find_tag ''div'' None (Some ''courseblocktitle_bubble'') course = Some dd
       \<and> find_tag ''div'' None (Some ''course_code'') dd = Some cc
       \<and> find_tag ''div'' None (Some ''course_codetitle'') dd = Some ct
       \<and> find_tag ''div'' None (Some ''course_credits'') dd = Some cr
        \<longrightarrow> (\<exists>code name credits attributes.
              extract_course_info course =
                Inr (code, name, credits, description_of course, attributes)))"
proof -
  have cases: "description_of course =
     (case find_tag ''div'' None (Some ''courseblockdesc'') course of
        None \<Rightarrow> ''N/A''
      | Some d \<Rightarrow>
          (case find_tag ''p'' None None d of
             None \<Rightarrow> ''N/A''
           | Some p \<Rightarrow> trimmed_fragments p))"
    by (simp add: description_cases get_text_trimmed_fragments split: option.splits)
  have field: "fst (snd (snd (snd info))) = description_of course"
    if "extract_course_info course = Inr info" for info
    using that extract_course_info_fields[of course] by (cases info) auto
  have total: "\<exists>code name credits attributes.
              extract_course_info course =
                Inr (code, name, credits, description_of course, attributes)"
    if "find_tag ''div'' None (Some ''courseblocktitle_bubble'') course = Some dd"
      "find_tag ''div'' None (Some ''course_code'') dd = Some cc"
      "find_tag ''div'' None (Some ''course_codetitle'') dd = Some ct"
      "find_tag ''div'' None (Some ''course_credits'') dd = Some cr" for dd cc ct cr
    using extract_course_info_title_present[OF that] by blast
  show ?thesis
    using cases trimmed_fragments_single[of n i c h s] field total by blast
qed

theorem description_or_sentinel_witness:
  "extract_course_info (course_block [''CS'', ''101''] ''Intro'' ''3 Credits'' [])
     = Inr (''CS 101'', ''Intro'', ''3'', ''N/A'', ''N/A'')
   \<and> extract_course_info
       (course_block [''CS'', ''101''] ''Intro'' ''3 Credits''
          [Tag ''div'' None [''courseblockdesc''] None []])
     = Inr (''CS 101'', ''Intro'', ''3'', ''N/A'', ''N/A'')
   \<and> extract_course_info
       (course_block [''CS'', ''101''] ''Intro'' ''3 Credits''
          [Tag ''div'' None [''courseblockdesc''] None
             [Tag ''p'' None [] None
                [NavigableString '' Basics of '',
                 Tag ''a'' None [] (Some ''/cs/'') [NavigableString ''programming''],
                 NavigableString ''  '',
                 NavigableString '' in C. ''],
              Tag ''p'' None [] None [NavigableString ''Second paragraph'']]])
     = Inr (''CS 101'', ''Intro'', ''3'', ''Basics ofprogrammingin C.'', ''N/A'')"
proof -
  let ?a = "course_block [''CS'', ''101''] ''Intro'' ''3 Credits'' []"
  let ?b = "course_block [''CS'', ''101''] ''Intro'' ''3 Credits''
          [Tag ''div'' None [''courseblockdesc''] None []]"
  let ?p = "Tag ''p'' None [] None
                [NavigableString '' Basics of '',
                 Tag ''a'' None [] (Some ''/cs/'') [NavigableString ''programming''],
                 NavigableString ''  '',
                 NavigableString '' in C. '']"
  let ?d = "Tag ''div'' None [''courseblockdesc''] None
             [?p, Tag ''p'' None [] None [NavigableString ''Second paragraph'']]"
  let ?c = "course_block [''CS'', ''101''] ''Intro'' ''3 Credits'' [?d]"
  have a1: "find_tag ''div'' None (Some ''courseblockdesc'') ?a = None"
    by (simp add: course_block_def find_tag_def find_all_def)
  have b1: "find_tag ''div'' None (Some ''courseblockdesc'') ?b
              = Some (Tag ''div'' None [''courseblockdesc''] None [])"
    by (simp add: course_block_def find_tag_def find_all_def)
  have b2: "find_tag ''p'' None None (Tag ''div'' None [''courseblockdesc''] None []) = None"
    by (simp add: find_tag_def find_all_def)
  have c1: "find_tag ''div'' None (Some ''courseblockdesc'') ?c = Some ?d"
    by (simp add: course_block_def find_tag_def find_all_def)
  have c2: "find_tag ''p'' None None ?d = Some ?p"
    by (simp add: find_tag_def find_all_def)
  have s: "trimmed_fragments ?p = ''Basics ofprogrammingin C.''"
    by (simp add: trimmed_fragments_def strip_def isspace_def)
  have x: "attributes_of ?a = ''N/A''" "attributes_of ?b = ''N/A''" "attributes_of ?c = ''N/A''"
    by (simp_all add: attributes_of_def attributes_try_def course_block_def
          find_tag_def find_all_def)
  have t: "strip ''Intro'' = ''Intro''" "credit_hours_of (strip ''3 Credits'') = ''3''"
    by (simp_all add: strip_def isspace_def credit_hours_of_def isnumeric_def)
  have da: "description_of ?a = ''N/A''"
    using description_or_sentinel[of ?a] a1 by simp
  have db: "description_of ?b = ''N/A''"
    using description_or_sentinel[of ?b] b1 b2 by simp
  have dc: "description_of ?c = ''Basics ofprogrammingin C.''"
    using description_or_sentinel[of ?c] c1 c2 s by simp
  show ?thesis
    by (simp add: extract_course_block da db dc x t)
qed

text \<open>
  C9, as the specification states it, fails on a paragraph that holds more than one text
  fragment: the description is not the trimmed text of the paragraph, because the
  whitespace inside it, at the ends of its fragments, is removed as well.
\<close>

theorem description_not_trimmed_text_counterexample:
  "find_tag ''div'' None (Some ''courseblockdesc'')
     (course_block [''CS'', ''101''] ''Intro'' ''3 Credits''
        [Tag ''div'' None [''courseblockdesc''] None
           [Tag ''p'' None [] None
              [NavigableString ''Hello '',
               Tag ''b'' None [] None [NavigableString ''world''],
               NavigableString '' again '']]])
     = Some (Tag ''div'' None [''courseblockdesc''] None
           [Tag ''p'' None [] None
              [NavigableString ''Hello '',
               Tag ''b'' None [] None [NavigableString ''world''],
               NavigableString '' again '']])
   \<and> find_tag ''p'' None None
        (Tag ''div'' None [''courseblockdesc''] None
           [Tag ''p'' None [] None
              [NavigableString ''Hello '',
               Tag ''b'' None [] None [NavigableString ''world''],
               NavigableString '' again '']])
     = Some (Tag ''p'' None [] None
              [NavigableString ''Hello '',
               Tag ''b'' None [] None [NavigableString ''world''],
               NavigableString '' again ''])
   \<and> strip (get_text False
        (Tag ''p'' None [] None
              [NavigableString ''Hello '',
               Tag ''b'' None [] None [NavigableString ''world''],
               NavigableString '' again ''])) = ''Hello world again''
   \<and> extract_course_info
       (course_block [''CS'', ''101''] ''Intro'' ''3 Credits''
        [Tag ''div'' None [''courseblockdesc''] None
           [Tag ''p'' None [] None
              [NavigableString ''Hello '',
               Tag ''b'' None [] None [NavigableString ''world''],
               NavigableString '' again '']]])
     = Inr (''CS 101'', ''Intro'', ''3'', ''Helloworldagain'', ''N/A'')"
proof -
  let ?p = "Tag ''p'' None [] None
              [NavigableString ''Hello '',
               Tag ''b'' None [] None [NavigableString ''world''],
               NavigableString '' again '']"
  let ?d = "Tag ''div'' None [''courseblockdesc''] None [?p]"
  let ?c = "course_block [''CS'', ''101''] ''Intro'' ''3 Credits'' [?d]"
  have c1: "find_tag ''div'' None (Some ''courseblockdesc'') ?c = Some ?d"
    by (simp add: course_block_def find_tag_def find_all_def)
  have c2: "find_tag ''p'' None None ?d = Some ?p"
    by (simp add: find_tag_def find_all_def)
  have g: "strip (get_text False ?p) = ''Hello world again''"
    by (simp add: get_text_def all_strings_def strip_def isspace_def)
  have d: "description_of ?c = ''Helloworldagain''"
    by (simp add: description_cases c1 c2 get_text_def all_strings_def strip_def isspace_def)
  have x: "attributes_of ?c = ''N/A''"
    by (simp add: attributes_of_def attributes_try_def course_block_def
          find_tag_def find_all_def)
  have t: "strip ''Intro'' = ''Intro''" "credit_hours_of (strip ''3 Credits'') = ''3''"
    by (simp_all add: strip_def isspace_def credit_hours_of_def isnumeric_def)
  have e: "extract_course_info ?c = Inr (''CS 101'', ''Intro'', ''3'', ''Helloworldagain'', ''N/A'')"
    by (simp add: extract_course_block d x t)
  show ?thesis using c1 c2 g e by simp
qed

section \<open>The steps of a run\<close>

lemma effect_logging [simp]: "effect (logging l m s) = effect s"
  by (simp add: effect_def logging_def)

lemma effect_logged_update [simp]: "effect (s\<lparr>logged := x\<rparr>) = effect s"
  by (simp add: effect_def)

lemma effect_outcome: "effect s = effect s' \<Longrightarrow> outcome s = outcome s'"
  by (simp add: effect_def outcome_def)

lemma effect_fields:
  assumes "effect s = effect s'"
  shows "batch s = batch s'" and "counter s = counter s'"
    and "existing_codes s = existing_codes s'" and "inserted s = inserted s'"
    and "committed s = committed s'" and "db_calls s = db_calls s'"
  using assms by (simp_all add: effect_def)

lemma stage_known:
  assumes "fst info \<in> existing_codes s"
  shows "batch (stage info s) = batch s" and "counter (stage info s) = counter s"
    and "existing_codes (stage info s) = existing_codes s"
    and "inserted (stage info s) = inserted s"
    and "committed (stage info s) = committed s"
    and "db_calls (stage info s) = db_calls s"
  using assms by (cases info; simp add: stage_def logging_def)+

lemma stage_new:
  assumes "fst info \<notin> existing_codes s"
  shows "batch (stage info s) = batch s @ [info]" and "counter (stage info s) = Suc (counter s)"
    and "existing_codes (stage info s) = insert (fst info) (existing_codes s)"
    and "inserted (stage info s) = inserted s"
    and "committed (stage info s) = committed s"
    and "db_calls (stage info s) = db_calls s"
  using assms by (cases info; simp add: stage_def logging_def)+

lemma effect_stage_cong:
  assumes "effect s = effect s'"
  shows "effect (stage info s) = effect (stage info s')"
proof (cases "fst info \<in> existing_codes s")
  case True
  then have "fst info \<in> existing_codes s'" using effect_fields(3)[OF assms] by simp
  with True show ?thesis using assms by (simp add: effect_def stage_known)
next
  case False
  then have "fst info \<notin> existing_codes s'" using effect_fields(3)[OF assms] by simp
  with False show ?thesis using assms by (simp add: effect_def stage_new)
qed

lemma flush_ok_below: "length (batch s) < BATCH_SIZE \<Longrightarrow> flush_if_full_ok s = s"
  by (simp add: flush_if_full_ok_def)

lemma flush_ok_full:
  assumes "BATCH_SIZE \<le> length (batch s)"
  shows "batch (flush_if_full_ok s) = []" and "counter (flush_if_full_ok s) = counter s"
    and "existing_codes (flush_if_full_ok s) = existing_codes s"
    and "inserted (flush_if_full_ok s) = inserted s @ [batch s]"
    and "committed (flush_if_full_ok s) = Suc (length (inserted s))"
    and "db_calls (flush_if_full_ok s) = Suc (Suc (db_calls s))"
  using assms by (simp_all add: flush_if_full_ok_def logging_def)

lemma effect_flush_ok_cong:
  assumes "effect s = effect s'"
  shows "effect (flush_if_full_ok s) = effect (flush_if_full_ok s')"
proof (cases "length (batch s) < BATCH_SIZE")
  case True
  then have "length (batch s') < BATCH_SIZE" using effect_fields(1)[OF assms] by simp
  with True show ?thesis using assms by (simp add: flush_ok_below)
next
  case False
  then have f: "BATCH_SIZE \<le> length (batch s)" by simp
  then have f': "BATCH_SIZE \<le> length (batch s')" using effect_fields(1)[OF assms] by simp
  show ?thesis
    using effect_fields[OF assms] by (simp add: effect_def flush_ok_full[OF f] flush_ok_full[OF f'])
qed

lemma effect_stage_all_cong:
  "effect s = effect s' \<Longrightarrow> effect (stage_all infos s) = effect (stage_all infos s')"
proof (induction infos arbitrary: s s')
  case Nil
  then show ?case by simp
next
  case (Cons info rest)
  have "effect (flush_if_full_ok (stage info s)) = effect (flush_if_full_ok (stage info s'))"
    by (rule effect_flush_ok_cong, rule effect_stage_cong, rule Cons.prems)
  from Cons.IH[OF this] show ?case by simp
qed

lemma stage_all_append: "stage_all (xs @ ys) s = stage_all ys (stage_all xs s)"
  by (induction xs arbitrary: s) auto

text \<open>The calls to the database.\<close>

lemma flush_below: "length (batch s) < BATCH_SIZE \<Longrightarrow> flush_if_full w s = (None, s)"
  by (simp add: flush_if_full_def)

lemma flush_reliable:
  "\<forall>n. \<not> db_fails w n \<Longrightarrow> flush_if_full w s = (None, flush_if_full_ok s)"
  by (simp add: flush_if_full_def flush_if_full_ok_def insert_courses_def commit_def logging_def)

lemma flush_remaining_reliable:
  "\<forall>n. \<not> db_fails w n \<Longrightarrow> flush_remaining w s = (None, flush_remaining_ok s)"
  by (simp add: flush_remaining_def flush_remaining_ok_def insert_courses_def commit_def
        logging_def)

lemma flush_remaining_empty: "batch s = [] \<Longrightarrow> flush_remaining w s = (None, s)"
  by (simp add: flush_remaining_def)

lemma flush_remaining_keeps:
  "batch (snd (flush_remaining w s)) = batch s
   \<and> counter (snd (flush_remaining w s)) = counter s
   \<and> existing_codes (snd (flush_remaining w s)) = existing_codes s"
  by (simp add: flush_remaining_def insert_courses_def commit_def logging_def)

lemma effect_flush_remaining_ok_cong:
  "effect s = effect s' \<Longrightarrow> effect (flush_remaining_ok s) = effect (flush_remaining_ok s')"
  by (auto simp: effect_def flush_remaining_ok_def logging_def)

text \<open>When no flush of the loop can fail.\<close>

lemma length_filter_weaker:
  "(\<And>x. P x \<Longrightarrow> Q x) \<Longrightarrow> length (filter P xs) \<le> length (filter Q xs)"
  by (induction xs) auto

lemma calm_cong: "effect s = effect s' \<Longrightarrow> calm w s infos = calm w s' infos"
  by (simp add: calm_def effect_def)

lemma calm_step:
  assumes "calm w s (info # rest)"
  shows "flush_if_full w (stage info s) = (None, flush_if_full_ok (stage info s))"
    and "calm w (flush_if_full_ok (stage info s)) rest"
proof -
  have "flush_if_full w (stage info s) = (None, flush_if_full_ok (stage info s))
      \<and> calm w (flush_if_full_ok (stage info s)) rest"
  proof (cases "\<forall>n. \<not> db_fails w n")
    case True
    then show ?thesis by (simp add: flush_reliable calm_def)
  next
    case False
    with assms have q: "length (batch s)
        + length (filter (\<lambda>i. fst i \<notin> existing_codes s) (info # rest)) < BATCH_SIZE"
      by (simp add: calm_def)
    show ?thesis
    proof (cases "fst info \<in> existing_codes s")
      case True
      have b: "length (batch (stage info s)) < BATCH_SIZE"
        using q by (simp add: stage_known[OF True])
      have "length (batch (stage info s))
        + length (filter (\<lambda>i. fst i \<notin> existing_codes (stage info s)) rest) < BATCH_SIZE"
        using q True by (simp add: stage_known[OF True])
      then show ?thesis by (simp add: flush_below[OF b] flush_ok_below[OF b] calm_def)
    next
      case False
      have le: "length (filter (\<lambda>i. fst i \<notin> insert (fst info) (existing_codes s)) rest)
             \<le> length (filter (\<lambda>i. fst i \<notin> existing_codes s) rest)"
        by (rule length_filter_weaker) simp
      have b: "length (batch (stage info s)) < BATCH_SIZE"
        using q False by (simp add: stage_new[OF False])
      have "length (batch (stage info s))
        + length (filter (\<lambda>i. fst i \<notin> existing_codes (stage info s)) rest) < BATCH_SIZE"
        using q False le by (simp add: stage_new[OF False])
      then show ?thesis by (simp add: flush_below[OF b] flush_ok_below[OF b] calm_def)
    qed
  qed
  then show "flush_if_full w (stage info s) = (None, flush_if_full_ok (stage info s))"
    and "calm w (flush_if_full_ok (stage info s)) rest" by blast+
qed

lemma calm_prefix: "calm w s (xs @ ys) \<Longrightarrow> calm w s xs"
  by (auto simp: calm_def)

lemma calm_suffix: "calm w s (xs @ ys) \<Longrightarrow> calm w (stage_all xs s) ys"
proof (induction xs arbitrary: s)
  case Nil
  then show ?case by simp
next
  case (Cons x xs)
  then have "calm w s (x # (xs @ ys))" by simp
  from calm_step(2)[OF this] have "calm w (flush_if_full_ok (stage x s)) (xs @ ys)" .
  from Cons.IH[OF this] show ?case by simp
qed

lemma calm_small:
  "length (batch s) + length infos < BATCH_SIZE \<Longrightarrow> calm w s infos"
proof -
  assume a: "length (batch s) + length infos < BATCH_SIZE"
  have "length (filter (\<lambda>i. fst i \<notin> existing_codes s) infos) \<le> length infos"
    by (rule length_filter_le)
  with a have "length (batch s) + length (filter (\<lambda>i. fst i \<notin> existing_codes s) infos)
      < BATCH_SIZE"
    by linarith
  then show ?thesis unfolding calm_def by (rule disjI2)
qed

lemma calm_known:
  assumes "set (map fst infos) \<subseteq> existing_codes s" and "length (batch s) < BATCH_SIZE"
  shows "calm w s infos"
proof -
  have "filter (\<lambda>i. fst i \<notin> existing_codes s) infos = []"
    using assms(1) by (auto simp: filter_empty_conv)
  then show ?thesis using assms(2) by (simp add: calm_def)
qed

section \<open>The run as a fold over the records it parses\<close>

lemma course_loop_calm:
  "calm w s (parsed_courses courses) \<Longrightarrow>
   snd (course_loop w courses s) = stage_all (parsed_courses courses) s"
proof (induction courses arbitrary: s)
  case Nil
  then show ?case by simp
next
  case (Cons course rest)
  show ?case
  proof (cases "extract_course_info course")
    case (Inl e)
    then show ?thesis by simp
  next
    case (Inr info)
    with Cons.prems have c: "calm w s (info # parsed_courses rest)" by simp
    note st = calm_step[OF c]
    from Cons.IH[OF st(2)] show ?thesis using Inr st(1) by simp
  qed
qed



lemma subject_try_none: "fst (subject_try w subject s) = None"
  by (simp add: subject_try_def split: prod.splits option.splits)

lemma subject_loop_none: "fst (subject_loop w subjects s) = None"
proof (induction subjects arbitrary: s)
  case Nil
  then show ?case by simp
next
  case (Cons subject rest)
  obtain s' where "subject_try w subject s = (None, s')"
    using subject_try_none[of w subject s] by (cases "subject_try w subject s") auto
  then show ?case using Cons.IH[of s'] by simp
qed

lemma subject_try_calm:
  assumes "calm w s (subject_records w subject)"
  shows "effect (snd (subject_try w subject s)) = effect (stage_all (subject_records w subject) s)"
proof (cases "fetch_courses w subject")
  case (Inl e)
  then show ?thesis by (simp add: subject_try_def subject_body_def subject_records_def)
next
  case (Inr courses)
  show ?thesis
  proof (cases "courses = []")
    case True
    with Inr show ?thesis by (simp add: subject_try_def subject_body_def subject_records_def)
  next
    case False
    have c: "calm w s (parsed_courses courses)"
      using assms Inr by (simp add: subject_records_def)
    obtain r s' where l: "course_loop w courses s = (r, s')" by (cases "course_loop w courses s")
    then have "s' = stage_all (parsed_courses courses) s"
      using course_loop_calm[OF c] by simp
    with Inr False l show ?thesis
      by (cases r) (simp_all add: subject_try_def subject_body_def subject_records_def)
  qed
qed

lemma subject_loop_calm:
  "calm w s (concat (map (subject_records w) subjects)) \<Longrightarrow>
   effect (snd (subject_loop w subjects s))
     = effect (stage_all (concat (map (subject_records w) subjects)) s)"
proof (induction subjects arbitrary: s)
  case Nil
  then show ?case by simp
next
  case (Cons subject rest)
  let ?recs = "subject_records w subject"
  let ?more = "concat (map (subject_records w) rest)"
  have c: "calm w s (?recs @ ?more)" using Cons.prems by simp
  obtain s' where t: "subject_try w subject s = (None, s')"
    using subject_try_none[of w subject s] by (cases "subject_try w subject s") auto
  have e: "effect s' = effect (stage_all ?recs s)"
    using subject_try_calm[OF calm_prefix[OF c]] t by simp
  have "calm w s' ?more"
    using calm_suffix[OF c] calm_cong[OF e] by simp
  from Cons.IH[OF this]
  have "effect (snd (subject_loop w rest s')) = effect (stage_all ?more s')" .
  also have "\<dots> = effect (stage_all ?more (stage_all ?recs s))"
    by (rule effect_stage_all_cong[OF e])
  finally show ?case using t by (simp add: stage_all_append)
qed

lemma fetch_subject_links_never_raises:
  "\<exists>l links. fetch_subject_links w category = (l, Inr links)"
  by (cases "subject_links_try w category") (auto simp: fetch_subject_links_def)

lemma category_try_none: "fst (category_try w category s) = None"
proof -
  obtain l links where f: "fetch_subject_links w category = (l, Inr links)"
    using fetch_subject_links_never_raises by blast
  obtain s' where "subject_loop w links (s\<lparr>logged := logged s @ l\<rparr>) = (None, s')"
    using subject_loop_none[of w links "s\<lparr>logged := logged s @ l\<rparr>"]
    by (cases "subject_loop w links (s\<lparr>logged := logged s @ l\<rparr>)") auto
  then show ?thesis using f by (simp add: category_try_def category_body_def)
qed

lemma category_loop_none: "fst (category_loop w categories s) = None"
proof (induction categories arbitrary: s)
  case Nil
  then show ?case by simp
next
  case (Cons category rest)
  obtain s' where "category_try w category s = (None, s')"
    using category_try_none[of w category s] by (cases "category_try w category s") auto
  then show ?case using Cons.IH[of s'] by simp
qed

lemma category_try_calm:
  assumes "calm w s (category_records w category)"
  shows "effect (snd (category_try w category s))
           = effect (stage_all (category_records w category) s)"
proof -
  obtain l links where f: "fetch_subject_links w category = (l, Inr links)"
    using fetch_subject_links_never_raises by blast
  let ?s = "s\<lparr>logged := logged s @ l\<rparr>"
  let ?recs = "concat (map (subject_records w) links)"
  have r: "category_records w category = ?recs" using f by (simp add: category_records_def)
  have e: "effect ?s = effect s" by simp
  have "calm w ?s ?recs" using assms r calm_cong[OF e] by simp
  from subject_loop_calm[OF this]
  have "effect (snd (subject_loop w links ?s)) = effect (stage_all ?recs ?s)" .
  also have "\<dots> = effect (stage_all ?recs s)" by (rule effect_stage_all_cong[OF e])
  finally have x: "effect (snd (subject_loop w links ?s)) = effect (stage_all ?recs s)" .
  obtain s' where sl: "subject_loop w links ?s = (None, s')"
    using subject_loop_none[of w links ?s] by (cases "subject_loop w links ?s") auto
  show ?thesis using f sl x r by (simp add: category_try_def category_body_def)
qed

lemma category_loop_calm:
  "calm w s (concat (map (category_records w) categories)) \<Longrightarrow>
   effect (snd (category_loop w categories s))
     = effect (stage_all (concat (map (category_records w) categories)) s)"
proof (induction categories arbitrary: s)
  case Nil
  then show ?case by simp
next
  case (Cons category rest)
  let ?recs = "category_records w category"
  let ?more = "concat (map (category_records w) rest)"
  have c: "calm w s (?recs @ ?more)" using Cons.prems by simp
  obtain s' where t: "category_try w category s = (None, s')"
    using category_try_none[of w category s] by (cases "category_try w category s") auto
  have e: "effect s' = effect (stage_all ?recs s)"
    using category_try_calm[OF calm_prefix[OF c]] t by simp
  have "calm w s' ?more"
    using calm_suffix[OF c] calm_cong[OF e] by simp
  from Cons.IH[OF this]
  have "effect (snd (category_loop w rest s')) = effect (stage_all ?more s')" .
  also have "\<dots> = effect (stage_all ?more (stage_all ?recs s))"
    by (rule effect_stage_all_cong[OF e])
  finally show ?case using t by (simp add: stage_all_append)
qed

lemma fetch_category_links_never_raises:
  "\<exists>l links. fetch_category_links w url = (l, Inr links)"
  by (cases "http_get w url")
     (auto simp: fetch_category_links_def get_soup_def Let_def split: option.splits)

text \<open>The run up to the statements after the loops.\<close>

lemma main_before_flush:
  "\<exists>s. main w rows =
         (case flush_remaining w s of
            (Some e, s') \<Rightarrow> (Some e, s')
          | (None, s') \<Rightarrow> (None, logging INFO (Total_courses_added (counter s')) s'))
     \<and> (calm w \<lparr>batch = [], counter = 0, existing_codes = set rows, inserted = [],
                 committed = 0, db_calls = 0, logged = []\<rparr> (traversal_records w)
         \<longrightarrow> effect s = effect (stage_all (traversal_records w)
               \<lparr>batch = [], counter = 0, existing_codes = set rows, inserted = [],
                committed = 0, db_calls = 0, logged = []\<rparr>))"
proof -
  obtain l links where f: "fetch_category_links w BASE_URL = (l, Inr links)"
    using fetch_category_links_never_raises by blast
  let ?i = "\<lambda>l. \<lparr>batch = [], counter = 0, existing_codes = set rows, inserted = [],
                 committed = 0, db_calls = 0, logged = l\<rparr>"
  let ?recs = "concat (map (category_records w) links)"
  have t: "traversal_records w = ?recs" using f by (simp add: traversal_records_def)
  obtain s where c: "category_loop w links (?i l) = (None, s)"
    using category_loop_none[of w links "?i l"] by (cases "category_loop w links (?i l)") auto
  have m: "main w rows =
         (case flush_remaining w s of
            (Some e, s') \<Rightarrow> (Some e, s')
          | (None, s') \<Rightarrow> (None, logging INFO (Total_courses_added (counter s')) s'))"
    using f c by (simp add: main_def)
  have e: "effect (?i l) = effect (?i [])" by (simp add: effect_def)
  have "effect s = effect (stage_all ?recs (?i []))" if "calm w (?i []) ?recs"
  proof -
    have "calm w (?i l) ?recs" using that calm_cong[OF e] by simp
    from category_loop_calm[OF this] c
    have "effect s = effect (stage_all ?recs (?i l))" by simp
    also have "\<dots> = effect (stage_all ?recs (?i []))" by (rule effect_stage_all_cong[OF e])
    finally show ?thesis .
  qed
  then show ?thesis using m t by auto
qed

lemma main_reliable:
  assumes "\<forall>n. \<not> db_fails w n"
  shows "fst (main w rows) = None"
    and "effect (snd (main w rows)) =
           effect (flush_remaining_ok (stage_all (traversal_records w)
             \<lparr>batch = [], counter = 0, existing_codes = set rows, inserted = [],
              committed = 0, db_calls = 0, logged = []\<rparr>))"
proof -
  let ?i = "\<lparr>batch = [], counter = 0, existing_codes = set rows, inserted = [],
              committed = 0, db_calls = 0, logged = []\<rparr>"
  have c: "calm w ?i (traversal_records w)" using assms by (simp add: calm_def)
  from main_before_flush[of w rows] c
  obtain s where m: "main w rows =
         (case flush_remaining w s of
            (Some e, s') \<Rightarrow> (Some e, s')
          | (None, s') \<Rightarrow> (None, logging INFO (Total_courses_added (counter s')) s'))"
    and e: "effect s = effect (stage_all (traversal_records w) ?i)"
    by blast
  have m': "main w rows
      = (None, logging INFO (Total_courses_added (counter (flush_remaining_ok s)))
                 (flush_remaining_ok s))"
    using m by (simp add: flush_remaining_reliable[OF assms])
  show "fst (main w rows) = None" by (simp add: m')
  show "effect (snd (main w rows)) = effect (flush_remaining_ok (stage_all (traversal_records w) ?i))"
    using effect_flush_remaining_ok_cong[OF e] by (simp add: m')
qed

lemma main_staged:
  assumes "calm w \<lparr>batch = [], counter = 0, existing_codes = set rows, inserted = [],
              committed = 0, db_calls = 0, logged = []\<rparr> (traversal_records w)"
  shows "batch (snd (main w rows)) = batch (stage_all (traversal_records w)
             \<lparr>batch = [], counter = 0, existing_codes = set rows, inserted = [],
              committed = 0, db_calls = 0, logged = []\<rparr>)"
    and "counter (snd (main w rows)) = counter (stage_all (traversal_records w)
             \<lparr>batch = [], counter = 0, existing_codes = set rows, inserted = [],
              committed = 0, db_calls = 0, logged = []\<rparr>)"
    and "existing_codes (snd (main w rows)) = existing_codes (stage_all (traversal_records w)
             \<lparr>batch = [], counter = 0, existing_codes = set rows, inserted = [],
              committed = 0, db_calls = 0, logged = []\<rparr>)"
proof -
  let ?i = "\<lparr>batch = [], counter = 0, existing_codes = set rows, inserted = [],
              committed = 0, db_calls = 0, logged = []\<rparr>"
  from main_before_flush[of w rows] assms
  obtain s where m: "main w rows =
         (case flush_remaining w s of
            (Some e, s') \<Rightarrow> (Some e, s')
          | (None, s') \<Rightarrow> (None, logging INFO (Total_courses_added (counter s')) s'))"
    and e: "effect s = effect (stage_all (traversal_records w) ?i)"
    by blast
  obtain r s' where f: "flush_remaining w s = (r, s')" by (cases "flush_remaining w s")
  have k: "batch s' = batch s" "counter s' = counter s" "existing_codes s' = existing_codes s"
    using flush_remaining_keeps[of w s] f by simp_all
  have "batch (snd (main w rows)) = batch s \<and> counter (snd (main w rows)) = counter s
      \<and> existing_codes (snd (main w rows)) = existing_codes s"
    using m f k by (cases r) (simp_all add: logging_def)
  then show "batch (snd (main w rows)) = batch (stage_all (traversal_records w) ?i)"
    and "counter (snd (main w rows)) = counter (stage_all (traversal_records w) ?i)"
    and "existing_codes (snd (main w rows)) = existing_codes (stage_all (traversal_records w) ?i)"
    using effect_fields[OF e] by simp_all
qed

section \<open>The records staged and the inserts made\<close>

lemma staged_records_known:
  "set (map fst infos) \<subseteq> known \<Longrightarrow> staged_records known infos = []"
  by (induction infos arbitrary: known) auto



text \<open>While the batch stays below the threshold nothing is inserted.\<close>

lemma stage_all_quiet:
  "length (batch s) + length (filter (\<lambda>i. fst i \<notin> existing_codes s) infos) < BATCH_SIZE \<Longrightarrow>
   effect (stage_all infos s)
     = (batch s @ staged_records (existing_codes s) infos,
        counter s + length (staged_records (existing_codes s) infos),
        existing_codes s \<union> set (map fst infos), inserted s, committed s, db_calls s)"
proof (induction infos arbitrary: s)
  case Nil
  then show ?case by (simp add: effect_def)
next
  case (Cons info rest)
  show ?case
  proof (cases "fst info \<in> existing_codes s")
    case True
    note k = stage_known[OF True]
    have b: "length (batch (stage info s)) < BATCH_SIZE" using Cons.prems by (simp add: k)
    have "length (batch (stage info s))
        + length (filter (\<lambda>i. fst i \<notin> existing_codes (stage info s)) rest) < BATCH_SIZE"
      using Cons.prems True by (simp add: k)
    from Cons.IH[OF this] show ?thesis
      using True by (simp add: flush_ok_below[OF b] k insert_absorb)
  next
    case False
    note n = stage_new[OF False]
    have le: "length (filter (\<lambda>i. fst i \<notin> insert (fst info) (existing_codes s)) rest)
             \<le> length (filter (\<lambda>i. fst i \<notin> existing_codes s) rest)"
      by (rule length_filter_weaker) simp
    have b: "length (batch (stage info s)) < BATCH_SIZE" using Cons.prems False by (simp add: n)
    have "length (batch (stage info s))
        + length (filter (\<lambda>i. fst i \<notin> existing_codes (stage info s)) rest) < BATCH_SIZE"
      using Cons.prems False le by (simp add: n)
    from Cons.IH[OF this] show ?thesis
      using False by (simp add: flush_ok_below[OF b] n)
  qed
qed

lemma stage_all_known:
  assumes "set (map fst infos) \<subseteq> existing_codes s" and "length (batch s) < BATCH_SIZE"
  shows "effect (stage_all infos s) = effect s"
proof -
  have f: "filter (\<lambda>i. fst i \<notin> existing_codes s) infos = []"
    using assms(1) by (auto simp: filter_empty_conv)
  have "length (batch s) + length (filter (\<lambda>i. fst i \<notin> existing_codes s) infos) < BATCH_SIZE"
    using assms(2) by (simp add: f)
  from stage_all_quiet[OF this] show ?thesis
    using assms(1) by (simp add: staged_records_known effect_def Un_absorb2)
qed

text \<open>The staged records, in the order of the traversal, are the rows of the inserts
  followed by the pending batch.\<close>

lemma flush_ok_rows:
  "concat (inserted (flush_if_full_ok s)) @ batch (flush_if_full_ok s)
     = concat (inserted s) @ batch s
   \<and> counter (flush_if_full_ok s) = counter s
   \<and> existing_codes (flush_if_full_ok s) = existing_codes s"
proof (cases "length (batch s) < BATCH_SIZE")
  case True
  then show ?thesis by (simp add: flush_ok_below)
next
  case False
  then have "BATCH_SIZE \<le> length (batch s)" by simp
  note f = flush_ok_full[OF this]
  show ?thesis by (simp add: f)
qed

lemma stage_all_staged:
  "concat (inserted (stage_all infos s)) @ batch (stage_all infos s)
     = concat (inserted s) @ batch s @ staged_records (existing_codes s) infos
   \<and> counter (stage_all infos s) = counter s + length (staged_records (existing_codes s) infos)
   \<and> existing_codes (stage_all infos s) = existing_codes s \<union> set (map fst infos)"
proof (induction infos arbitrary: s)
  case Nil
  then show ?case by simp
next
  case (Cons info rest)
  let ?t = "flush_if_full_ok (stage info s)"
  note r = flush_ok_rows[of "stage info s"]
  show ?case
  proof (cases "fst info \<in> existing_codes s")
    case True
    note k = stage_known[OF True]
    have "concat (inserted ?t) @ batch ?t = concat (inserted s) @ batch s"
      and "counter ?t = counter s" and "existing_codes ?t = existing_codes s"
      using r by (simp_all add: k)
    then show ?thesis using Cons.IH[of ?t] True by (simp add: insert_absorb)
  next
    case False
    note n = stage_new[OF False]
    have "concat (inserted ?t) @ batch ?t = concat (inserted s) @ batch s @ [info]"
      and "counter ?t = Suc (counter s)"
      and "existing_codes ?t = insert (fst info) (existing_codes s)"
      using r by (simp_all add: n)
    then show ?thesis using Cons.IH[of ?t] False by simp
  qed
qed

text \<open>The invariant of the loop over the records.\<close>

lemma full_batch_arith:
  "0 < k \<Longrightarrow> (n::nat) mod k = k - 1 \<Longrightarrow> Suc n mod k = 0 \<and> Suc n div k = Suc (n div k)"
  by (auto simp: mod_Suc div_Suc)

lemma part_batch_arith:
  "(n::nat) mod k \<noteq> k - 1 \<Longrightarrow> Suc n mod k = Suc (n mod k) \<and> Suc n div k = n div k"
  by (auto simp: mod_Suc div_Suc)

lemma BATCH_SIZE_pos: "0 < BATCH_SIZE"
  by (simp add: BATCH_SIZE_def)

lemma stage_flush_invariant:
  assumes "length (batch s) = counter s mod BATCH_SIZE"
    and "map length (inserted s) = replicate (counter s div BATCH_SIZE) BATCH_SIZE"
  shows "length (batch (flush_if_full_ok (stage info s)))
           = counter (flush_if_full_ok (stage info s)) mod BATCH_SIZE
       \<and> map length (inserted (flush_if_full_ok (stage info s)))
           = replicate (counter (flush_if_full_ok (stage info s)) div BATCH_SIZE) BATCH_SIZE"
proof (cases "fst info \<in> existing_codes s")
  case True
  have "length (batch s) < BATCH_SIZE" using assms(1) BATCH_SIZE_pos by simp
  then have "length (batch (stage info s)) < BATCH_SIZE"
    by (simp only: stage_known(1)[OF True])
  then have "flush_if_full_ok (stage info s) = stage info s" by (rule flush_ok_below)
  then show ?thesis using assms by (simp only: stage_known[OF True] simp_thms)
next
  case False
  note n = stage_new[OF False]
  show ?thesis
  proof (cases "counter s mod BATCH_SIZE = BATCH_SIZE - 1")
    case True
    have "length (batch s) = BATCH_SIZE - 1" using True assms(1) by simp
    then have len: "length (batch (stage info s)) = BATCH_SIZE"
      using BATCH_SIZE_pos by (simp add: n)
    then have full: "BATCH_SIZE \<le> length (batch (stage info s))" by simp
    note f = flush_ok_full[OF full]
    have a: "Suc (counter s) mod BATCH_SIZE = 0"
      and b: "Suc (counter s) div BATCH_SIZE = Suc (counter s div BATCH_SIZE)"
      using full_batch_arith[OF BATCH_SIZE_pos True] by simp_all
    have "map length (inserted s @ [batch (stage info s)])
            = replicate (Suc (counter s div BATCH_SIZE)) BATCH_SIZE"
      using assms(2) len by (simp add: replicate_append_same)
    then show ?thesis by (simp add: f n(2,4) a b)
  next
    case False
    have "counter s mod BATCH_SIZE < BATCH_SIZE" using BATCH_SIZE_pos by simp
    with False have lt: "Suc (counter s mod BATCH_SIZE) < BATCH_SIZE" by linarith
    then have "length (batch (stage info s)) < BATCH_SIZE"
      using assms(1) by (simp add: n)
    then have f: "flush_if_full_ok (stage info s) = stage info s" by (rule flush_ok_below)
    have a: "Suc (counter s) mod BATCH_SIZE = Suc (counter s mod BATCH_SIZE)"
      and b: "Suc (counter s) div BATCH_SIZE = counter s div BATCH_SIZE"
      using part_batch_arith[OF False] by simp_all
    show ?thesis using assms by (simp add: f n a b)
  qed
qed

lemma stage_all_invariant:
  assumes "length (batch s) = counter s mod BATCH_SIZE"
    and "map length (inserted s) = replicate (counter s div BATCH_SIZE) BATCH_SIZE"
  shows "length (batch (stage_all infos s)) = counter (stage_all infos s) mod BATCH_SIZE
       \<and> map length (inserted (stage_all infos s))
           = replicate (counter (stage_all infos s) div BATCH_SIZE) BATCH_SIZE"
  using assms
proof (induction infos arbitrary: s)
  case Nil
  then show ?case by simp
next
  case (Cons info rest)
  have "length (batch (flush_if_full_ok (stage info s)))
           = counter (flush_if_full_ok (stage info s)) mod BATCH_SIZE"
    and "map length (inserted (flush_if_full_ok (stage info s)))
           = replicate (counter (flush_if_full_ok (stage info s)) div BATCH_SIZE) BATCH_SIZE"
    using stage_flush_invariant[OF Cons.prems, of info] by blast+
  from Cons.IH[OF this] show ?case by simp
qed

lemma flush_remaining_ok_fields:
  "counter (flush_remaining_ok s) = counter s"
  "batch (flush_remaining_ok s) = batch s"
  "existing_codes (flush_remaining_ok s) = existing_codes s"
  "concat (inserted (flush_remaining_ok s)) = concat (inserted s) @ batch s"
  by (simp_all add: flush_remaining_ok_def logging_def)

lemma flush_remaining_ok_shape:
  assumes "length (batch s) = counter s mod BATCH_SIZE"
    and "map length (inserted s) = replicate (counter s div BATCH_SIZE) BATCH_SIZE"
  shows "map length (inserted (flush_remaining_ok s)) =
           replicate (counter s div BATCH_SIZE) BATCH_SIZE
           @ (if counter s mod BATCH_SIZE = 0 then [] else [counter s mod BATCH_SIZE])"
proof -
  have e: "(batch s = []) = (counter s mod BATCH_SIZE = 0)"
    using assms(1) by (metis length_0_conv)
  show ?thesis
  proof (cases "batch s = []")
    case True
    then show ?thesis using e assms(2) by (simp add: flush_remaining_ok_def logging_def)
  next
    case False
    then show ?thesis using e assms by (simp add: flush_remaining_ok_def logging_def)
  qed
qed


section \<open>The small site, evaluated\<close>

lemma site_categories:
  "fetch_category_links site BASE_URL
     = ([(INFO, Fetched_category_links 1)], Inr [''https://site/cat/''])"
  by (simp add: fetch_category_links_def get_soup_def site_def site_base_def
        find_tag_def find_all_def)

lemma site_subjects:
  "fetch_subject_links site ''https://site/cat/''
     = ([(INFO, Fetched_subject_links 1 ''https://site/cat/'')], Inr [''https://site/cat/cs/''])"
  by (simp add: fetch_subject_links_def subject_links_try_def get_soup_def site_def
        BASE_URL_def site_category_def find_tag_def find_all_def startswith_def)

lemma site_courses:
  "fetch_courses site ''https://site/cat/cs/''
     = Inr [course_block [''CS'', ''101''] ''Intro'' ''3 Credits'' [],
            course_block [''CS'', ''101''] ''Intro again'' ''3 Credits'' [],
            course_block [''MATH'', ''200''] ''Calculus'' ''1-3 Credits'' []]"
  by (simp add: fetch_courses_def get_soup_def site_def BASE_URL_def site_subject_def
        find_tag_def find_all_def course_block_def)

lemma extract_plain_course_block:
  "extract_course_info (course_block spans title credits [])
     = Inr (join '' '' spans, strip title, credit_hours_of (strip credits), ''N/A'', ''N/A'')"
proof -
  have "find_tag ''div'' None (Some ''courseblockdesc'') (course_block spans title credits []) = None"
    and "find_tag ''div'' None (Some ''courseblockextra'') (course_block spans title credits []) = None"
    by (simp_all add: course_block_def find_tag_def find_all_def descendants_spans filter_div_spans)
  then show ?thesis
    by (simp add: extract_course_block description_cases attributes_absent)
qed

lemma site_records:
  "extract_course_info (course_block [''CS'', ''101''] ''Intro'' ''3 Credits'' [])
     = Inr (''CS 101'', ''Intro'', ''3'', ''N/A'', ''N/A'')"
  "extract_course_info (course_block [''CS'', ''101''] ''Intro again'' ''3 Credits'' [])
     = Inr (''CS 101'', ''Intro again'', ''3'', ''N/A'', ''N/A'')"
  "extract_course_info (course_block [''MATH'', ''200''] ''Calculus'' ''1-3 Credits'' [])
     = Inr (''MATH 200'', ''Calculus'', ''1'', ''N/A'', ''N/A'')"
  by (simp_all add: extract_plain_course_block strip_def isspace_def credit_hours_of_def
        isnumeric_def)

lemma site_traversal:
  "traversal_records site
     = [(''CS 101'', ''Intro'', ''3'', ''N/A'', ''N/A''),
        (''CS 101'', ''Intro again'', ''3'', ''N/A'', ''N/A''),
        (''MATH 200'', ''Calculus'', ''1'', ''N/A'', ''N/A'')]"
  by (simp add: traversal_records_def category_records_def subject_records_def
        site_categories site_subjects site_courses site_records)

lemma outcome_flush_remaining_ok:
  "outcome (flush_remaining_ok s)
     = (batch s, counter s, existing_codes s,
        if batch s \<noteq> [] then inserted s @ [batch s] else inserted s)"
  by (simp add: outcome_def flush_remaining_ok_def logging_def)

lemma main_nothing_new:
  assumes "set (map fst (traversal_records w)) \<subseteq> set rows"
  shows "fst (main w rows) = None"
    and "effect (snd (main w rows)) = ([], 0, set rows, [], 0, 0)"
proof -
  let ?i = "\<lparr>batch = [], counter = 0, existing_codes = set rows, inserted = [],
              committed = 0, db_calls = 0, logged = []\<rparr>"
  have b: "length (batch ?i) < BATCH_SIZE" by (simp add: BATCH_SIZE_def)
  have k: "set (map fst (traversal_records w)) \<subseteq> existing_codes ?i" using assms by simp
  have c: "calm w ?i (traversal_records w)" by (rule calm_known[OF k b])
  from main_before_flush[of w rows] c
  obtain s where m: "main w rows =
         (case flush_remaining w s of
            (Some e, s') \<Rightarrow> (Some e, s')
          | (None, s') \<Rightarrow> (None, logging INFO (Total_courses_added (counter s')) s'))"
    and e: "effect s = effect (stage_all (traversal_records w) ?i)"
    by blast
  have "effect s = effect ?i" using e stage_all_known[OF k b] by simp
  then have e': "effect s = ([], 0, set rows, [], 0, 0)" by (simp add: effect_def)
  then have "batch s = []" by (simp add: effect_def)
  then have m': "main w rows = (None, logging INFO (Total_courses_added (counter s)) s)"
    using m by (simp add: flush_remaining_empty)
  show "fst (main w rows) = None" by (simp add: m')
  show "effect (snd (main w rows)) = ([], 0, set rows, [], 0, 0)" using e' by (simp add: m')
qed

section \<open>Properties of the orchestrator\<close>

text \<open>
  C1. In a run whose traversal yields one category, one subject and three course blocks
  that parse to the codes "CS 101", "CS 101" and "MATH 200", in that order, where the
  codes read from the database contain "CS 101" (and not "MATH 200"), exactly one record
  is staged, the one with code "MATH 200": it alone is in the batch, the counter is 1 and
  its code has joined the known codes, whatever the database does; and when the database
  raises on no call, the run ends normally and the final flush inserts that record. In
  general a record whose code is among the known codes leaves batch, counter and known
  codes as they are, and any other record is appended to the batch and counted, and its
  code is added to the known codes.
\<close>

theorem scenario_one_record_staged:
  assumes "snd (fetch_category_links w BASE_URL) = Inr [category]"
    and "snd (fetch_subject_links w category) = Inr [subject]"
    and "fetch_courses w subject = Inr [c1, c2, c3]"
    and "extract_course_info c1 = Inr r1"
    and "extract_course_info c2 = Inr r2"
    and "extract_course_info c3 = Inr r3"
    and "fst r1 = ''CS 101''" and "fst r2 = ''CS 101''" and "fst r3 = ''MATH 200''"
    and "''CS 101'' \<in> set rows" and "''MATH 200'' \<notin> set rows"
  shows "batch (snd (main w rows)) = [r3]
       \<and> counter (snd (main w rows)) = 1
       \<and> existing_codes (snd (main w rows)) = insert ''MATH 200'' (set rows)
       \<and> ((\<forall>n. \<not> db_fails w n) \<longrightarrow>
            fst (main w rows) = None
            \<and> outcome (snd (main w rows)) = ([r3], 1, insert ''MATH 200'' (set rows), [[r3]]))
       \<and> (fst info \<in> existing_codes s \<longrightarrow>
            batch (stage info s) = batch s \<and> counter (stage info s) = counter s
            \<and> existing_codes (stage info s) = existing_codes s)
       \<and> (fst info \<notin> existing_codes s \<longrightarrow>
            batch (stage info s) = batch s @ [info] \<and> counter (stage info s) = counter s + 1
            \<and> existing_codes (stage info s) = insert (fst info) (existing_codes s))"
proof -
  let ?i = "\<lparr>batch = [], counter = 0, existing_codes = set rows, inserted = [],
              committed = 0, db_calls = 0, logged = []\<rparr>"
  let ?S = "stage_all (traversal_records w) ?i"
  have t: "traversal_records w = [r1, r2, r3]"
    using assms(1-6)
    by (simp add: traversal_records_def category_records_def subject_records_def)
  have small: "length (batch ?i) + length (traversal_records w) < BATCH_SIZE"
    by (simp add: t BATCH_SIZE_def)
  have c: "calm w ?i (traversal_records w)" by (rule calm_small[OF small])
  have st: "staged_records (set rows) [r1, r2, r3] = [r3]"
    using assms(7-11) by simp
  have q: "length (batch ?i)
      + length (filter (\<lambda>i. fst i \<notin> existing_codes ?i) (traversal_records w)) < BATCH_SIZE"
    by (simp add: t BATCH_SIZE_def)
  have codes: "set rows \<union> set (map fst [r1, r2, r3]) = insert ''MATH 200'' (set rows)"
    using assms(7-10) by auto
  have e: "effect ?S = ([r3], 1, insert ''MATH 200'' (set rows), [], 0, 0)"
    using stage_all_quiet[OF q] st codes by (simp add: t)
  then have f: "batch ?S = [r3]" "counter ?S = 1"
    "existing_codes ?S = insert ''MATH 200'' (set rows)" "inserted ?S = []"
    by (simp_all add: effect_def)
  have staged: "batch (snd (main w rows)) = [r3] \<and> counter (snd (main w rows)) = 1
       \<and> existing_codes (snd (main w rows)) = insert ''MATH 200'' (set rows)"
    using main_staged[OF c] f by simp
  have rel: "fst (main w rows) = None
            \<and> outcome (snd (main w rows)) = ([r3], 1, insert ''MATH 200'' (set rows), [[r3]])"
    if r: "\<forall>n. \<not> db_fails w n"
  proof -
    have "outcome (snd (main w rows)) = outcome (flush_remaining_ok ?S)"
      by (rule effect_outcome[OF main_reliable(2)[OF r]])
    then show ?thesis using main_reliable(1)[OF r] f by (simp add: outcome_flush_remaining_ok)
  qed
  have k: "batch (stage info s) = batch s \<and> counter (stage info s) = counter s
            \<and> existing_codes (stage info s) = existing_codes s"
    if "fst info \<in> existing_codes s"
    using stage_known[OF that] by simp
  have n: "batch (stage info s) = batch s @ [info] \<and> counter (stage info s) = counter s + 1
            \<and> existing_codes (stage info s) = insert (fst info) (existing_codes s)"
    if "fst info \<notin> existing_codes s"
    using stage_new[OF that] by simp
  show ?thesis using staged rel k n by blast
qed

theorem scenario_one_record_staged_witness:
  "fst (main site [''CS 101'']) = None
   \<and> outcome (snd (main site [''CS 101'']))
       = ([(''MATH 200'', ''Calculus'', ''1'', ''N/A'', ''N/A'')], 1,
          {''MATH 200'', ''CS 101''},
          [[(''MATH 200'', ''Calculus'', ''1'', ''N/A'', ''N/A'')]])"
proof -
  have 1: "snd (fetch_category_links site BASE_URL) = Inr [''https://site/cat/'']"
    by (simp add: site_categories)
  have 2: "snd (fetch_subject_links site ''https://site/cat/'') = Inr [''https://site/cat/cs/'']"
    by (simp add: site_subjects)
  have 7: "fst (''CS 101'', ''Intro'', ''3'', ''N/A'', ''N/A'') = ''CS 101''"
    and 8: "fst (''CS 101'', ''Intro again'', ''3'', ''N/A'', ''N/A'') = ''CS 101''"
    and 9: "fst (''MATH 200'', ''Calculus'', ''1'', ''N/A'', ''N/A'') = ''MATH 200''"
    and 10: "''CS 101'' \<in> set [''CS 101'']" and 11: "''MATH 200'' \<notin> set [''CS 101'']"
    by simp_all
  have r: "\<forall>n. \<not> db_fails site n" by (simp add: site_def)
  show ?thesis
    using scenario_one_record_staged[OF 1 2 site_courses site_records 7 8 9 10 11] r
    by simp
qed

text \<open>
  C7. When the page of a subject has no course-description container, the course-block
  extractor raises and does not catch the error; the error reaches the handler of that
  subject in the orchestrator, which logs it; the subject contributes no record (batch,
  counter, known codes and inserts are as before it), and the loop goes on with the
  next subject. No failure of one subject leaves the loop over the subjects.
\<close>

theorem missing_course_container_skips_subject:
  assumes "http_get w subject = Page soup"
    and "find_tag ''div'' None (Some ''sc_sccoursedescs'') soup = None"
  shows "fetch_courses w subject = Inl AttributeError
       \<and> subject_body w subject s = (Some AttributeError, s)
       \<and> subject_try w subject s
           = (None, logging ERROR (Error_processing_course subject AttributeError) s)
       \<and> outcome (snd (subject_try w subject s)) = outcome s
       \<and> subject_records w subject = []
       \<and> subject_loop w (subject # rest) s
           = subject_loop w rest (logging ERROR (Error_processing_course subject AttributeError) s)
       \<and> fst (subject_try w subject' s') = None
       \<and> fst (subject_loop w subjects s') = None"
proof -
  have f: "fetch_courses w subject = Inl AttributeError"
    using assms by (simp add: fetch_courses_def get_soup_def)
  then have b: "subject_body w subject s = (Some AttributeError, s)"
    by (simp add: subject_body_def)
  then have t: "subject_try w subject s
           = (None, logging ERROR (Error_processing_course subject AttributeError) s)"
    by (simp add: subject_try_def)
  then have l: "subject_loop w (subject # rest) s
           = subject_loop w rest (logging ERROR (Error_processing_course subject AttributeError) s)"
    by simp
  have r: "subject_records w subject = []"
    using f by (simp add: subject_records_def)
  show ?thesis
    using f b t l r subject_try_none[of w subject' s'] subject_loop_none[of w subjects s']
    by (simp add: outcome_def logging_def)
qed

theorem missing_course_container_skips_subject_witness:
  "fetch_courses site ''https://site/cat/'' = Inl AttributeError
   \<and> fst (subject_loop site [''https://site/cat/'', ''https://site/cat/cs/'']
        \<lparr>batch = [], counter = 0, existing_codes = {''CS 101''}, inserted = [],
          committed = 0, db_calls = 0, logged = []\<rparr>)
      = None
   \<and> outcome (snd (subject_loop site [''https://site/cat/'', ''https://site/cat/cs/'']
        \<lparr>batch = [], counter = 0, existing_codes = {''CS 101''}, inserted = [],
          committed = 0, db_calls = 0, logged = []\<rparr>))
      = ([(''MATH 200'', ''Calculus'', ''1'', ''N/A'', ''N/A'')], 1, {''MATH 200'', ''CS 101''}, [])"
proof -
  let ?i = "\<lparr>batch = [], counter = 0, existing_codes = {''CS 101''}, inserted = [],
          committed = 0, db_calls = 0, logged = []\<rparr>"
  have p: "http_get site ''https://site/cat/'' = Page site_category"
    by (simp add: site_def BASE_URL_def)
  have n: "find_tag ''div'' None (Some ''sc_sccoursedescs'') site_category = None"
    by (simp add: site_category_def find_tag_def find_all_def)
  note m = missing_course_container_skips_subject[OF p n, of ?i "[''https://site/cat/cs/'']"
      "''https://site/cat/''" ?i "[''https://site/cat/'', ''https://site/cat/cs/'']"]
  have e: "fetch_courses site ''https://site/cat/'' = Inl AttributeError"
    using m by (rule conjunct1)
  have l: "subject_loop site [''https://site/cat/'', ''https://site/cat/cs/''] ?i
      = subject_loop site [''https://site/cat/cs/'']
          (logging ERROR (Error_processing_course ''https://site/cat/'' AttributeError) ?i)"
    using m by blast
  have f: "fst (subject_loop site [''https://site/cat/'', ''https://site/cat/cs/''] ?i) = None"
    using m by blast
  have o: "outcome (snd (subject_loop site [''https://site/cat/cs/'']
           (logging ERROR (Error_processing_course ''https://site/cat/'' AttributeError) ?i)))
      = ([(''MATH 200'', ''Calculus'', ''1'', ''N/A'', ''N/A'')], 1, {''MATH 200'', ''CS 101''}, [])"
    by (simp add: subject_try_def subject_body_def site_courses site_records stage_def
          flush_if_full_def logging_def BATCH_SIZE_def outcome_def)
  show ?thesis
  proof (intro conjI)
    show "fetch_courses site ''https://site/cat/'' = Inl AttributeError" by (rule e)
    show "fst (subject_loop site [''https://site/cat/'', ''https://site/cat/cs/''] ?i) = None"
      by (rule f)
    show "outcome (snd (subject_loop site [''https://site/cat/'', ''https://site/cat/cs/''] ?i))
      = ([(''MATH 200'', ''Calculus'', ''1'', ''N/A'', ''N/A'')], 1, {''MATH 200'', ''CS 101''}, [])"
      by (simp only: l o)
  qed
qed

text \<open>
  C8, as amended. When the page of a category has no site-map container, the subject
  link extractor catches the resulting error itself, logs it and returns the empty list;
  it never raises to its caller. The caller therefore has no subject to process for that
  category, stages nothing for it, and goes on with the next category.
\<close>

theorem missing_sitemap_gives_no_subjects:
  assumes "http_get w category = Page soup"
    and "find_tag ''div'' None (Some ''az_sitemap'') soup = None"
  shows "subject_links_try w category = Inl AttributeError
       \<and> fetch_subject_links w category
           = ([(ERROR, Error_fetching_subject_links category AttributeError)], Inr [])
       \<and> category_try w category s
           = (None, s\<lparr>logged := logged s
                @ [(ERROR, Error_fetching_subject_links category AttributeError)]\<rparr>)
       \<and> category_records w category = []
       \<and> category_loop w (category # rest) s
           = category_loop w rest (s\<lparr>logged := logged s
                @ [(ERROR, Error_fetching_subject_links category AttributeError)]\<rparr>)
       \<and> (\<exists>l links. fetch_subject_links w category' = (l, Inr links))"
proof -
  have t: "subject_links_try w category = Inl AttributeError"
    using assms by (simp add: subject_links_try_def get_soup_def)
  then have f: "fetch_subject_links w category
           = ([(ERROR, Error_fetching_subject_links category AttributeError)], Inr [])"
    by (simp add: fetch_subject_links_def)
  then have c: "category_try w category s
           = (None, s\<lparr>logged := logged s
                @ [(ERROR, Error_fetching_subject_links category AttributeError)]\<rparr>)"
    by (simp add: category_try_def category_body_def)
  then have l: "category_loop w (category # rest) s
           = category_loop w rest (s\<lparr>logged := logged s
                @ [(ERROR, Error_fetching_subject_links category AttributeError)]\<rparr>)"
    by simp
  have r: "category_records w category = []"
    using f by (simp add: category_records_def)
  show ?thesis
    using t f c l r fetch_subject_links_never_raises[of w category'] by simp
qed

theorem missing_sitemap_gives_no_subjects_witness:
  "fetch_subject_links site ''https://site/cat/cs/''
     = ([(ERROR, Error_fetching_subject_links ''https://site/cat/cs/'' AttributeError)], Inr [])
   \<and> fst (category_loop site [''https://site/cat/cs/'', ''https://site/cat/'']
        \<lparr>batch = [], counter = 0, existing_codes = {''CS 101''}, inserted = [],
          committed = 0, db_calls = 0, logged = []\<rparr>)
      = None
   \<and> outcome (snd (category_loop site [''https://site/cat/cs/'', ''https://site/cat/'']
        \<lparr>batch = [], counter = 0, existing_codes = {''CS 101''}, inserted = [],
          committed = 0, db_calls = 0, logged = []\<rparr>))
      = ([(''MATH 200'', ''Calculus'', ''1'', ''N/A'', ''N/A'')], 1, {''MATH 200'', ''CS 101''}, [])"
proof -
  let ?i = "\<lparr>batch = [], counter = 0, existing_codes = {''CS 101''}, inserted = [],
          committed = 0, db_calls = 0, logged = []\<rparr>"
  have p: "http_get site ''https://site/cat/cs/'' = Page site_subject"
    by (simp add: site_def BASE_URL_def)
  have n: "find_tag ''div'' None (Some ''az_sitemap'') site_subject = None"
    by (simp add: site_subject_def find_tag_def find_all_def course_block_def)
  let ?j = "?i\<lparr>logged := logged ?i
              @ [(ERROR, Error_fetching_subject_links ''https://site/cat/cs/'' AttributeError)]\<rparr>"
  note m = missing_sitemap_gives_no_subjects[OF p n, of ?i "[''https://site/cat/'']"]
  have e: "fetch_subject_links site ''https://site/cat/cs/''
     = ([(ERROR, Error_fetching_subject_links ''https://site/cat/cs/'' AttributeError)], Inr [])"
    using m by blast
  have l: "category_loop site [''https://site/cat/cs/'', ''https://site/cat/''] ?i
      = category_loop site [''https://site/cat/''] ?j"
    using m by blast
  have c: "category_loop site [''https://site/cat/''] ?j
      = (None, \<lparr>batch = [(''MATH 200'', ''Calculus'', ''1'', ''N/A'', ''N/A'')], counter = 1,
           existing_codes = {''MATH 200'', ''CS 101''}, inserted = [],
           committed = 0, db_calls = 0,
           logged = [(ERROR, Error_fetching_subject_links ''https://site/cat/cs/'' AttributeError),
                     (INFO, Fetched_subject_links 1 ''https://site/cat/''),
                     (INFO, Course_already_in_database ''CS 101'' ''Intro''),
                     (INFO, Course_already_in_database ''CS 101'' ''Intro again''),
                     (INFO, Prepared_entry ''MATH 200'' ''Calculus'')]\<rparr>)"
    by (simp add: category_try_def category_body_def site_subjects
          subject_try_def subject_body_def site_courses site_records stage_def
          flush_if_full_def logging_def BATCH_SIZE_def)
  show ?thesis
  proof (intro conjI)
    show "fetch_subject_links site ''https://site/cat/cs/''
     = ([(ERROR, Error_fetching_subject_links ''https://site/cat/cs/'' AttributeError)], Inr [])"
      by (rule e)
    show "fst (category_loop site [''https://site/cat/cs/'', ''https://site/cat/''] ?i) = None"
      by (simp only: l c fst_conv)
    show "outcome (snd (category_loop site [''https://site/cat/cs/'', ''https://site/cat/''] ?i))
      = ([(''MATH 200'', ''Calculus'', ''1'', ''N/A'', ''N/A'')], 1, {''MATH 200'', ''CS 101''}, [])"
      by (simp only: l c snd_conv) (simp add: outcome_def)
  qed
qed

text \<open>
  C8, as the specification states it, fails: on a category page without the site-map
  container the extractor returns the empty list and does not raise.
\<close>

theorem missing_sitemap_not_raised_counterexample:
  "http_get site ''https://site/cat/cs/'' = Page site_subject
   \<and> find_tag ''div'' None (Some ''az_sitemap'') site_subject = None
   \<and> snd (fetch_subject_links site ''https://site/cat/cs/'') = Inr []
   \<and> snd (fetch_subject_links site ''https://site/cat/cs/'') \<noteq> Inl AttributeError"
proof -
  have p: "http_get site ''https://site/cat/cs/'' = Page site_subject"
    by (simp add: site_def BASE_URL_def)
  have n: "find_tag ''div'' None (Some ''az_sitemap'') site_subject = None"
    by (simp add: site_subject_def find_tag_def find_all_def course_block_def)
  have "subject_links_try site ''https://site/cat/cs/'' = Inl AttributeError"
    using p n by (simp add: subject_links_try_def get_soup_def)
  then have "snd (fetch_subject_links site ''https://site/cat/cs/'') = Inr []"
    by (simp add: fetch_subject_links_def)
  then show ?thesis using p n by simp
qed

text \<open>
  C10. When the GET of the base URL fails, with a request error or with an error status,
  the category link fetcher catches the error, logs it and returns the empty list. The
  run then ends normally with no record staged, no call to the database and no insert
  made, and what it leaves (batch, counter, known codes, inserts) is what a run on a site
  with an empty catalog leaves.
\<close>

theorem base_request_failure_is_empty_catalog:
  assumes "http_get w BASE_URL = RequestFailed \<or> http_get w BASE_URL = StatusError"
  shows "(\<exists>e. get_soup w BASE_URL = Inl e \<and> is_RequestException e
            \<and> fetch_category_links w BASE_URL
                = ([(ERROR, Error_fetching_category_links e)], Inr [])
            \<and> main w rows
                = (None, \<lparr>batch = [], counter = 0, existing_codes = set rows, inserted = [],
                     committed = 0, db_calls = 0,
                     logged = [(ERROR, Error_fetching_category_links e),
                               (INFO, Total_courses_added 0)]\<rparr>))
       \<and> traversal_records w = []
       \<and> (snd (fetch_category_links w' BASE_URL) = Inr [] \<longrightarrow>
            fst (main w' rows) = fst (main w rows)
            \<and> outcome (snd (main w' rows)) = outcome (snd (main w rows)))"
proof -
  obtain e where g: "get_soup w BASE_URL = Inl e" and r: "is_RequestException e"
    using assms by (auto simp: get_soup_def)
  have f: "fetch_category_links w BASE_URL
                = ([(ERROR, Error_fetching_category_links e)], Inr [])"
    using g r by (simp add: fetch_category_links_def)
  have m: "main w rows
                = (None, \<lparr>batch = [], counter = 0, existing_codes = set rows, inserted = [],
                     committed = 0, db_calls = 0,
                     logged = [(ERROR, Error_fetching_category_links e),
                               (INFO, Total_courses_added 0)]\<rparr>)"
    using f by (simp add: main_def flush_remaining_def logging_def)
  have t: "traversal_records w = []"
    using f by (simp add: traversal_records_def)
  have o: "fst (main w' rows) = fst (main w rows)
            \<and> outcome (snd (main w' rows)) = outcome (snd (main w rows))"
    if "snd (fetch_category_links w' BASE_URL) = Inr []"
  proof -
    have "traversal_records w' = []" using that by (simp add: traversal_records_def)
    then have k: "set (map fst (traversal_records w')) \<subseteq> set rows" by simp
    have "effect (snd (main w' rows)) = ([], 0, set rows, [], 0, 0)"
      by (rule main_nothing_new(2)[OF k])
    then have "outcome (snd (main w' rows)) = ([], 0, set rows, [])"
      by (simp add: effect_def outcome_def)
    then show ?thesis using main_nothing_new(1)[OF k] m by (simp add: outcome_def)
  qed
  show ?thesis using g r f m t o by blast
qed

theorem base_request_failure_is_empty_catalog_witness:
  "main (site\<lparr>http_get := \<lambda>url. RequestFailed\<rparr>) [''CS 101'']
     = (None, \<lparr>batch = [], counter = 0, existing_codes = {''CS 101''}, inserted = [],
          committed = 0, db_calls = 0,
          logged = [(ERROR, Error_fetching_category_links RequestException),
                    (INFO, Total_courses_added 0)]\<rparr>)
   \<and> outcome (snd (main (site\<lparr>http_get := \<lambda>url. Page (Tag ''[document]'' None [] None [])\<rparr>)
        [''CS 101'']))
      = ([], 0, {''CS 101''}, [])"
proof -
  let ?w = "site\<lparr>http_get := \<lambda>url. RequestFailed\<rparr>"
  let ?v = "site\<lparr>http_get := \<lambda>url. Page (Tag ''[document]'' None [] None [])\<rparr>"
  have a: "http_get ?w BASE_URL = RequestFailed \<or> http_get ?w BASE_URL = StatusError"
    by simp
  have g: "get_soup ?w BASE_URL = Inl RequestException"
    by (simp add: get_soup_def)
  have v: "snd (fetch_category_links ?v BASE_URL) = Inr []"
    by (simp add: fetch_category_links_def get_soup_def find_tag_def find_all_def)
  show ?thesis
    using base_request_failure_is_empty_catalog[OF a, of "[''CS 101'']" ?v] g v
    by (auto simp: outcome_def)
qed

lemma sum_list_replicate_nat: "sum_list (replicate n (k::nat)) = n * k"
  by (induction n) auto

lemma codes_known_or_staged:
  "set (map fst infos) \<subseteq> known \<union> fst ` set (staged_records known infos)"
proof (induction infos arbitrary: known)
  case Nil
  then show ?case by simp
next
  case (Cons info rest)
  show ?case using Cons.IH[of known] Cons.IH[of "insert (fst info) known"] by auto
qed

lemma main_reliable_rows:
  assumes "\<forall>n. \<not> db_fails w n"
  shows "concat (inserted (snd (main w rows))) = staged_records (set rows) (traversal_records w)"
    and "counter (snd (main w rows)) = length (staged_records (set rows) (traversal_records w))"
    and "map length (inserted (snd (main w rows)))
           = replicate (counter (snd (main w rows)) div BATCH_SIZE) BATCH_SIZE
             @ (if counter (snd (main w rows)) mod BATCH_SIZE = 0 then []
                else [counter (snd (main w rows)) mod BATCH_SIZE])"
proof -
  let ?i = "\<lparr>batch = [], counter = 0, existing_codes = set rows, inserted = [],
              committed = 0, db_calls = 0, logged = []\<rparr>"
  let ?S = "stage_all (traversal_records w) ?i"
  note e = effect_fields[OF main_reliable(2)[OF assms, of rows]]
  note st = stage_all_staged[of "traversal_records w" ?i]
  have c: "counter (snd (main w rows)) = counter ?S"
    using e(2) by (simp add: flush_remaining_ok_fields)
  show "concat (inserted (snd (main w rows))) = staged_records (set rows) (traversal_records w)"
    using e(4) st by (simp add: flush_remaining_ok_fields)
  show "counter (snd (main w rows)) = length (staged_records (set rows) (traversal_records w))"
    using c st by simp
  have inv: "length (batch ?S) = counter ?S mod BATCH_SIZE
       \<and> map length (inserted ?S) = replicate (counter ?S div BATCH_SIZE) BATCH_SIZE"
    by (rule stage_all_invariant) simp_all
  then have "map length (inserted (flush_remaining_ok ?S)) =
           replicate (counter ?S div BATCH_SIZE) BATCH_SIZE
           @ (if counter ?S mod BATCH_SIZE = 0 then [] else [counter ?S mod BATCH_SIZE])"
    by (intro flush_remaining_ok_shape) blast+
  then show "map length (inserted (snd (main w rows)))
           = replicate (counter (snd (main w rows)) div BATCH_SIZE) BATCH_SIZE
             @ (if counter (snd (main w rows)) mod BATCH_SIZE = 0 then []
                else [counter (snd (main w rows)) mod BATCH_SIZE])"
    by (simp only: c e(4))
qed



lemma site_main_inserted:
  "inserted (snd (main site [''CS 101'']))
     = [[(''MATH 200'', ''Calculus'', ''1'', ''N/A'', ''N/A'')]]"
proof -
  have rel: "\<forall>n. \<not> db_fails site n" by (simp add: site_def)
  let ?i = "\<lparr>batch = [], counter = 0, existing_codes = set [''CS 101''], inserted = [],
              committed = 0, db_calls = 0, logged = []\<rparr>"
  have "inserted (snd (main site [''CS 101'']))
          = inserted (flush_remaining_ok (stage_all (traversal_records site) ?i))"
    by (rule effect_fields(4)[OF main_reliable(2)[OF rel]])
  then show ?thesis
    by (simp add: site_traversal stage_def flush_if_full_ok_def flush_remaining_ok_def
          logging_def BATCH_SIZE_def)
qed

text \<open>
  C3. When every code that the traversal yields is among the codes read from the
  database, the run stages nothing, whatever the database does: after every record the
  batch is empty, the counter is 0 and no insert has been made, and so they are at the
  end, with no call made to the database. In particular, when the database raises on no
  call, a second run on the same site, started on the database as the first run left
  it, stages no record and makes no insert.
\<close>

theorem second_run_stages_nothing:
  "(set (map fst (traversal_records w)) \<subseteq> set rows \<longrightarrow>
      fst (main w rows) = None
      \<and> counter (snd (main w rows)) = 0
      \<and> batch (snd (main w rows)) = []
      \<and> inserted (snd (main w rows)) = []
      \<and> existing_codes (snd (main w rows)) = set rows
      \<and> db_calls (snd (main w rows)) = 0
      \<and> (\<forall>n. outcome (stage_all (take n (traversal_records w))
              \<lparr>batch = [], counter = 0, existing_codes = set rows, inserted = [],
               committed = 0, db_calls = 0, logged = []\<rparr>)
            = ([], 0, set rows, [])))
   \<and> ((\<forall>n. \<not> db_fails w n) \<longrightarrow>
       (let rows2 = rows @ map fst (concat (inserted (snd (main w rows))))
        in fst (main w rows2) = None
         \<and> counter (snd (main w rows2)) = 0
         \<and> batch (snd (main w rows2)) = []
         \<and> inserted (snd (main w rows2)) = []))"
proof -
  have first: "fst (main w r) = None \<and> counter (snd (main w r)) = 0
      \<and> batch (snd (main w r)) = []
      \<and> inserted (snd (main w r)) = [] \<and> existing_codes (snd (main w r)) = set r
      \<and> db_calls (snd (main w r)) = 0"
    if "set (map fst (traversal_records w)) \<subseteq> set r" for r
    using main_nothing_new[OF that] by (simp add: effect_def)
  have prefixes: "outcome (stage_all (take n (traversal_records w))
              \<lparr>batch = [], counter = 0, existing_codes = set rows, inserted = [],
               committed = 0, db_calls = 0, logged = []\<rparr>)
            = ([], 0, set rows, [])"
    if h: "set (map fst (traversal_records w)) \<subseteq> set rows" for n
  proof -
    let ?i = "\<lparr>batch = [], counter = 0, existing_codes = set rows, inserted = [],
               committed = 0, db_calls = 0, logged = []\<rparr>"
    have "set (map fst (take n (traversal_records w))) \<subseteq> set (map fst (traversal_records w))"
      by (metis set_take_subset take_map)
    with h have "set (map fst (take n (traversal_records w))) \<subseteq> existing_codes ?i" by simp
    moreover have "length (batch ?i) < BATCH_SIZE" by (simp add: BATCH_SIZE_def)
    ultimately have "effect (stage_all (take n (traversal_records w)) ?i) = effect ?i"
      by (rule stage_all_known)
    then show ?thesis by (simp add: effect_def outcome_def)
  qed
  have second: "let rows2 = rows @ map fst (concat (inserted (snd (main w rows))))
        in fst (main w rows2) = None
         \<and> counter (snd (main w rows2)) = 0
         \<and> batch (snd (main w rows2)) = []
         \<and> inserted (snd (main w rows2)) = []"
    if rel: "\<forall>n. \<not> db_fails w n"
  proof -
    let ?rows2 = "rows @ map fst (concat (inserted (snd (main w rows))))"
    have "set (map fst (traversal_records w)) \<subseteq> set ?rows2"
      using codes_known_or_staged[of "traversal_records w" "set rows"]
      by (simp add: main_reliable_rows(1)[OF rel])
    from first[OF this] show ?thesis unfolding Let_def by blast
  qed
  show ?thesis using first[of rows] prefixes second by blast
qed

theorem second_run_stages_nothing_witness:
  "set (map fst (traversal_records site)) \<subseteq> set [''CS 101'', ''MATH 200'']
   \<and> counter (snd (main site [''CS 101'', ''MATH 200''])) = 0
   \<and> batch (snd (main site [''CS 101'', ''MATH 200''])) = []
   \<and> inserted (snd (main site [''CS 101'', ''MATH 200''])) = []
   \<and> inserted (snd (main site [''CS 101'']))
       = [[(''MATH 200'', ''Calculus'', ''1'', ''N/A'', ''N/A'')]]"
proof -
  have h: "set (map fst (traversal_records site)) \<subseteq> set [''CS 101'', ''MATH 200'']"
    by (simp add: site_traversal)
  show ?thesis
    using second_run_stages_nothing[of site "[''CS 101'', ''MATH 200'']"] h site_main_inserted
    by blast
qed

section \<open>A run in which an insert raises\<close>


















end
